theory Spec2Isabelle
  imports Complex_Main "HOL-Library.Word"
begin

section \<open>The CozIR acquisition and control loop (co2\_env\_chamber\_6.py)\<close>

text \<open>
  The script reads one line of bytes from the serial port per iteration, decodes it as
  UTF-8, searches it with the regular expression
  \<^verbatim>\<open>H\s*(\d+)\s*T\s*(\d+)\s*Z\s*(\d+)\<close>, scales the three captured integers, switches
  the CO2 valve on the third one, and, when nothing in the extracted quadruple is
  \<^verbatim>\<open>None\<close>, appends the quadruple to a bounded deque, writes it to the CSV file
  and redraws the trends.

  Python values are modelled as follows: \<^verbatim>\<open>bytes\<close> is a list of 8-bit words,
  \<^verbatim>\<open>str\<close> a list of code points, \<^verbatim>\<open>int\<close> is \<open>int\<close>, a value that may be
  \<^verbatim>\<open>None\<close> is an \<open>option\<close>, and a raised exception is the left injection of a
  sum. A \<^verbatim>\<open>float\<close> produced by \<^verbatim>\<open>n / 10\<close> is represented by the exact quotient
  that CPython rounds to the nearest double; the rounding itself is not modelled, the
  \<^verbatim>\<open>OverflowError\<close> of the division is.
\<close>

subsection \<open>Exceptions and the interpreter's parameters\<close>

datatype error = UnicodeDecodeError | ValueError | OverflowError | TypeError

text \<open>
  Two things the script inherits from the interpreter that runs it and that the source
  does not fix: the limit on the number of digits \<^verbatim>\<open>int(str)\<close> accepts
  (\<^verbatim>\<open>sys.get_int_max_str_digits()\<close>: 4300 by default, 0 when the limit is disabled or
  the interpreter has none), and the decimal digits of the Unicode database beyond ASCII
  (general category Nd) with their values. Every theorem below holds for every
  runtime.
\<close>

record runtime =
  int_max_str_digits :: nat
  nonascii_decimal :: "nat \<Rightarrow> nat option"

type_synonym byte = "8 word"
type_synonym codepoint = nat
type_synonym datetime = nat

subsection \<open>bytes.decode('utf-8')\<close>

text \<open>
  The strict UTF-8 decoder: well-formed sequences only (no overlong form, no surrogate,
  nothing above U+10FFFF); anything else raises \<^verbatim>\<open>UnicodeDecodeError\<close>.
\<close>

definition is_cont :: "nat \<Rightarrow> bool" where
  "is_cont b = (128 \<le> b \<and> b < 192)"

fun utf8_codepoints :: "nat list \<Rightarrow> codepoint list option" where
  "utf8_codepoints [] = Some []"
| "utf8_codepoints (b0 # bs) =
     (if b0 < 128 then map_option ((#) b0) (utf8_codepoints bs)
      else if 194 \<le> b0 \<and> b0 < 224 then
        (case bs of
           b1 # r \<Rightarrow>
             if is_cont b1
             then map_option ((#) ((b0 - 192) * 64 + (b1 - 128))) (utf8_codepoints r)
             else None
         | _ \<Rightarrow> None)
      else if 224 \<le> b0 \<and> b0 < 240 then
        (case bs of
           b1 # b2 # r \<Rightarrow>
             if is_cont b1 \<and> is_cont b2
                \<and> (if b0 = 224 then 160 \<le> b1 else True)
                \<and> (if b0 = 237 then b1 < 160 else True)
             then map_option
               ((#) ((b0 - 224) * 4096 + (b1 - 128) * 64 + (b2 - 128))) (utf8_codepoints r)
             else None
         | _ \<Rightarrow> None)
      else if 240 \<le> b0 \<and> b0 < 245 then
        (case bs of
           b1 # b2 # b3 # r \<Rightarrow>
             if is_cont b1 \<and> is_cont b2 \<and> is_cont b3
                \<and> (if b0 = 240 then 144 \<le> b1 else True)
                \<and> (if b0 = 244 then b1 < 144 else True)
             then map_option
               ((#) ((b0 - 240) * 262144 + (b1 - 128) * 4096 + (b2 - 128) * 64 + (b3 - 128)))
               (utf8_codepoints r)
             else None
         | _ \<Rightarrow> None)
      else None)"

definition decode_utf8 :: "byte list \<Rightarrow> error + codepoint list" where
  "decode_utf8 data_str =
     (case utf8_codepoints (map unat data_str) of
        None \<Rightarrow> Inl UnicodeDecodeError
      | Some s \<Rightarrow> Inr s)"

subsection \<open>The character classes of the pattern\<close>

text \<open>
  For a \<^verbatim>\<open>str\<close> pattern \<^verbatim>\<open>\s\<close> is Unicode whitespace and \<^verbatim>\<open>\d\<close> any Unicode
  decimal digit. The whitespace set is the same in every Unicode version the script
  can run on. The digit table is fixed on ASCII and comes from the runtime beyond it;
  no whitespace character is a decimal digit.
\<close>

definition is_space :: "codepoint \<Rightarrow> bool" where
  "is_space c =
     ((9 \<le> c \<and> c \<le> 13) \<or> (28 \<le> c \<and> c \<le> 32) \<or> c = 133 \<or> c = 160 \<or> c = 5760
      \<or> (8192 \<le> c \<and> c \<le> 8202) \<or> c = 8232 \<or> c = 8233 \<or> c = 8239 \<or> c = 8287
      \<or> c = 12288)"

definition decimal_value :: "runtime \<Rightarrow> codepoint \<Rightarrow> nat option" where
  "decimal_value rt c =
     (if c < 128 then (if 48 \<le> c \<and> c \<le> 57 then Some (c - 48) else None)
      else if is_space c then None
      else nonascii_decimal rt c)"

definition is_digit :: "runtime \<Rightarrow> codepoint \<Rightarrow> bool" where
  "is_digit rt c = (decimal_value rt c \<noteq> None)"

subsection \<open>The compiled pattern and \<^verbatim>\<open>pattern.search\<close>\<close>

text \<open>
  The pattern is a sequence of three kinds of items: a literal character, a greedy
  \<^verbatim>\<open>\s*\<close>, and a capturing greedy \<^verbatim>\<open>(\d+)\<close>. The matcher is the backtracking one
  of \<^verbatim>\<open>re\<close>: a greedy item first takes the longest run and gives characters back one
  at a time while the rest of the pattern fails. \<^verbatim>\<open>search\<close> tries the start
  positions from left to right and returns the captured groups of the first match.
\<close>

datatype item = Lit codepoint | Spaces | Digits

definition pattern :: "item list" where
  "pattern =
     [Lit 72, Spaces, Digits, Spaces, Lit 84, Spaces, Digits, Spaces, Lit 90, Spaces, Digits]"

fun first_some :: "('a \<Rightarrow> 'b option) \<Rightarrow> 'a list \<Rightarrow> 'b option" where
  "first_some f [] = None"
| "first_some f (x # xs) = (case f x of Some y \<Rightarrow> Some y | None \<Rightarrow> first_some f xs)"

fun match_here :: "runtime \<Rightarrow> item list \<Rightarrow> codepoint list \<Rightarrow> codepoint list list option"
  where
  "match_here rt [] s = Some []"
| "match_here rt (Lit c # its) s =
     (case s of
        [] \<Rightarrow> None
      | x # xs \<Rightarrow> if x = c then match_here rt its xs else None)"
| "match_here rt (Spaces # its) s =
     first_some (\<lambda>n. match_here rt its (drop n s))
       (rev [0 ..< Suc (length (takeWhile is_space s))])"
| "match_here rt (Digits # its) s =
     first_some (\<lambda>n. map_option ((#) (take n s)) (match_here rt its (drop n s)))
       (rev [1 ..< Suc (length (takeWhile (is_digit rt) s))])"

definition search :: "runtime \<Rightarrow> item list \<Rightarrow> codepoint list \<Rightarrow> codepoint list list option"
  where
  "search rt p s = first_some (\<lambda>i. match_here rt p (drop i s)) [0 ..< Suc (length s)]"

subsection \<open>int(str) and true division\<close>

text \<open>
  \<^verbatim>\<open>int\<close> of a group of decimal digits: the digits' values in base ten, or
  \<^verbatim>\<open>ValueError\<close> when the interpreter limits the length of such strings and the group
  is longer (the limit is never checked for strings of up to 640 digits).
\<close>

definition digits_value :: "runtime \<Rightarrow> codepoint list \<Rightarrow> int" where
  "digits_value rt ds =
     foldl (\<lambda>acc d. 10 * acc + int (case decimal_value rt d of Some v \<Rightarrow> v | None \<Rightarrow> 0)) 0 ds"

definition py_int :: "runtime \<Rightarrow> codepoint list \<Rightarrow> error + int" where
  "py_int rt ds =
     (if 0 < int_max_str_digits rt \<and> int_max_str_digits rt < length ds \<and> 640 < length ds
      then Inl ValueError
      else Inr (digits_value rt ds))"

text \<open>
  \<^verbatim>\<open>n / 10\<close> on an \<^verbatim>\<open>int\<close>: the quotient, correctly rounded to a double.
  The result overflows, and Python raises \<^verbatim>\<open>OverflowError\<close>, when the rounded
  magnitude would reach \<open>2 ^ 1024\<close>, that is from \<open>2 ^ 1024 - 2 ^ 970\<close> on.
\<close>

definition float_overflow :: rat where
  "float_overflow = 2 ^ 1024 - 2 ^ 970"

definition div10 :: "int \<Rightarrow> error + rat" where
  "div10 n =
     (if float_overflow \<le> \<bar>of_int n / 10\<bar> then Inl OverflowError else Inr (of_int n / 10))"

subsection \<open>extract\_values\<close>

type_synonym quadruple = "datetime option \<times> rat option \<times> rat option \<times> int option"

text \<open>
  \<^verbatim>\<open>current_dtime\<close> is what \<^verbatim>\<open>datetime.datetime.now()\<close> returns in this call.
  The two \<^verbatim>\<open>print\<close> calls write to the console only and are left out.
  \<open>scale_values\<close> is the body of the \<^verbatim>\<open>if match:\<close> branch. The pattern has three
  groups, so a match always carries three (\<open>search_pattern_three\<close> below) and the
  last case of \<open>extract_values\<close> is the failed search.
\<close>

definition scale_values ::
  "runtime \<Rightarrow> datetime \<Rightarrow> codepoint list \<Rightarrow> codepoint list \<Rightarrow> codepoint list \<Rightarrow> error + quadruple"
  where
  "scale_values rt current_dtime g1 g2 g3 =
     (case py_int rt g1 of
        Inl e \<Rightarrow> Inl e
      | Inr n1 \<Rightarrow>
          (case div10 n1 of
             Inl e \<Rightarrow> Inl e
           | Inr h_value \<Rightarrow>
               (case py_int rt g2 of
                  Inl e \<Rightarrow> Inl e
                | Inr n2 \<Rightarrow>
                    (case div10 (n2 - 1000) of
                       Inl e \<Rightarrow> Inl e
                     | Inr t_value \<Rightarrow>
                         (case py_int rt g3 of
                            Inl e \<Rightarrow> Inl e
                          | Inr z_value \<Rightarrow>
                              Inr (Some current_dtime, Some h_value, Some t_value,
                                   Some z_value))))))"

definition extract_values :: "runtime \<Rightarrow> datetime \<Rightarrow> byte list \<Rightarrow> error + quadruple" where
  "extract_values rt current_dtime data_str =
     (case decode_utf8 data_str of
        Inl e \<Rightarrow> Inl e
      | Inr s \<Rightarrow>
          (case search rt pattern s of
             Some [g1, g2, g3] \<Rightarrow> scale_values rt current_dtime g1 g2 g3
           | _ \<Rightarrow> Inr (None, None, None, None)))"

subsection \<open>The deque, the valve decision and plot\_trends\<close>

text \<open>
  \<^verbatim>\<open>deque(maxlen=n).append(x)\<close> adds \<open>x\<close> on the right and, when the deque is then
  longer than \<open>n\<close>, drops the leftmost element.
\<close>

definition deque_append :: "nat \<Rightarrow> 'a list \<Rightarrow> 'a \<Rightarrow> 'a list" where
  "deque_append maxlen d x = (let d' = d @ [x] in if maxlen < length d' then tl d' else d')"

text \<open>
  The valve is switched off when \<^verbatim>\<open>420 < z_value < 510\<close> and on otherwise; the level
  written to the pin is \<^verbatim>\<open>False\<close> for off and \<^verbatim>\<open>True\<close> for on.
\<close>

datatype command = Off | On

definition valve_decision :: "int \<Rightarrow> command" where
  "valve_decision z_value = (if 420 < z_value \<and> z_value < 510 then Off else On)"

fun gpio_level :: "command \<Rightarrow> bool" where
  "gpio_level Off = False"
| "gpio_level On = True"

definition Co2_valve :: nat where
  "Co2_valve = 31"

definition plot_interval :: nat where
  "plot_interval = 10"

text \<open>
  \<^verbatim>\<open>plot_trends\<close> starts with
  \<^verbatim>\<open>timestamps, h_values, t_values, z_values = zip(*data)\<close>, which raises
  \<^verbatim>\<open>ValueError\<close> on an empty deque (nothing to unpack) and otherwise gives the four
  series. The three \<^verbatim>\<open>plot\<close> calls then draw them. The humidity and temperature
  values are floats already; the CO2 values are \<^verbatim>\<open>int\<close>s of any size, which the
  drawing converts to floats, and \<^verbatim>\<open>ax3.plot(timestamps, z_values)\<close> raises
  \<^verbatim>\<open>OverflowError\<close> when one of them is too large for a double (the threshold of
  the division above). A \<^verbatim>\<open>None\<close> among the values does not occur: the loop appends
  quadruples without \<^verbatim>\<open>None\<close> only.
\<close>

type_synonym series =
  "datetime option list \<times> rat option list \<times> rat option list \<times> int option list"

definition unpack :: "quadruple list \<Rightarrow> error + series" where
  "unpack d =
     (if d = [] then Inl ValueError
      else Inr (map fst d, map (fst \<circ> snd) d, map (fst \<circ> snd \<circ> snd) d,
                map (snd \<circ> snd \<circ> snd) d))"

definition too_large :: "int option \<Rightarrow> bool" where
  "too_large z_value =
     (case z_value of None \<Rightarrow> False | Some z \<Rightarrow> float_overflow \<le> \<bar>of_int z\<bar>)"

definition plot_trends :: "quadruple list \<Rightarrow> error + series" where
  "plot_trends d =
     (case unpack d of
        Inl e \<Rightarrow> Inl e
      | Inr (timestamps, h_values, t_values, z_values) \<Rightarrow>
          if list_ex too_large z_values then Inl OverflowError
          else Inr (timestamps, h_values, t_values, z_values))"

subsection \<open>The loop\<close>

text \<open>
  The state of the loop is the deque; what the loop does to the world is recorded, in
  order, in a trace: the levels written to the valve's pin, the rows appended to the CSV
  file and the calls of \<^verbatim>\<open>plot_trends\<close> with the deque they are given. One iteration
  takes what \<^verbatim>\<open>readline\<close> returned and what the clock shows. The loop has no
  \<^verbatim>\<open>try\<close>: an exception raised in an iteration ends it.
\<close>

datatype effect =
  GPIO_output nat bool
| Csv_writerow quadruple
| Plot_trends "quadruple list"

record state =
  data :: "quadruple list"
  trace :: "effect list"

definition initial :: state where
  "initial = \<lparr>data = [], trace = []\<rparr>"

definition emit :: "effect \<Rightarrow> state \<Rightarrow> state" where
  "emit e s = s\<lparr>trace := trace s @ [e]\<rparr>"

datatype outcome = Continue | Raised error

definition None_not_in :: "quadruple \<Rightarrow> bool" where
  "None_not_in q =
     (case q of (a, b, c, d) \<Rightarrow> a \<noteq> None \<and> b \<noteq> None \<and> c \<noteq> None \<and> d \<noteq> None)"

definition loop_body :: "runtime \<Rightarrow> state \<Rightarrow> byte list \<times> datetime \<Rightarrow> outcome \<times> state" where
  "loop_body rt s inp =
     (case extract_values rt (snd inp) (fst inp) of
        Inl e \<Rightarrow> (Raised e, s)
      | Inr (current_dtime, h_value, t_value, z_value) \<Rightarrow>
          (case z_value of
             None \<Rightarrow> (Raised TypeError, s)
           | Some z \<Rightarrow>
               let s1 = emit (GPIO_output Co2_valve (gpio_level (valve_decision z))) s in
               if None_not_in (current_dtime, h_value, t_value, z_value) then
                 let s2 = s1\<lparr>data :=
                            deque_append 60 (data s1) (current_dtime, h_value, t_value, z_value)\<rparr>;
                     s3 = emit (Csv_writerow (current_dtime, h_value, t_value, z_value)) s2
                 in
                   if plot_interval \<le> length (data s3) then
                     (case plot_trends (data s3) of
                        Inl e \<Rightarrow> (Raised e, emit (Plot_trends (data s3)) s3)
                      | Inr _ \<Rightarrow> (Continue, emit (Plot_trends (data s3)) s3))
                   else (Continue, s3)
               else (Continue, s1)))"

text \<open>
  \<^verbatim>\<open>while True\<close> over the lines the port delivers: the run over a finite prefix of
  them ends either still in the loop or with the exception that ended it.
\<close>

fun run_loop :: "runtime \<Rightarrow> state \<Rightarrow> (byte list \<times> datetime) list \<Rightarrow> outcome \<times> state" where
  "run_loop rt s [] = (Continue, s)"
| "run_loop rt s (inp # inps) =
     (case loop_body rt s inp of
        (Continue, s') \<Rightarrow> run_loop rt s' inps
      | (Raised e, s') \<Rightarrow> (Raised e, s'))"

subsection \<open>Notions used to state the properties\<close>

text \<open>
  A bytes literal of ASCII characters, the decimal numeral of a natural number as the
  sensor prints it, whether a text starts with a character of a given class, and the
  rows of the trace by kind. \<open>sample_runtime\<close> is a runtime with the default digit
  limit and no digit beyond ASCII, for the examples over ASCII lines, on which the table
  is never consulted.
\<close>

definition ascii :: "string \<Rightarrow> byte list" where
  "ascii cs = map of_char cs"

fun decimal :: "nat \<Rightarrow> codepoint list" where
  "decimal n = (if n < 10 then [48 + n] else decimal (n div 10) @ [48 + n mod 10])"

fun starts_with :: "('a \<Rightarrow> bool) \<Rightarrow> 'a list \<Rightarrow> bool" where
  "starts_with P [] = False"
| "starts_with P (x # xs) = P x"

definition sample_runtime :: runtime where
  "sample_runtime = \<lparr>int_max_str_digits = 4300, nonascii_decimal = (\<lambda>c. None)\<rparr>"

text \<open>
  The line \<^verbatim>\<open>H<a> T<b> Z<c>\<close> as bytes, and the state after an iteration that
  extracted the quadruple \<open>q\<close> with CO2 value \<open>z\<close>: the valve is written, the
  quadruple is appended and logged, and the trends are drawn if the deque is long enough.
  A quadruple is drawable when its CO2 value is not too large for the drawing. An input
  is parsed when \<^verbatim>\<open>extract_values\<close> returns a quadruple without \<^verbatim>\<open>None\<close> on
  it, and readable when that quadruple is drawable as well.
\<close>

definition frame :: "nat \<Rightarrow> nat \<Rightarrow> nat \<Rightarrow> byte list" where
  "frame a b c = map of_nat (72 # decimal a @ [32, 84] @ decimal b @ [32, 90] @ decimal c)"

definition after_reading :: "state \<Rightarrow> quadruple \<Rightarrow> int \<Rightarrow> state" where
  "after_reading s q z =
     (let d = deque_append 60 (data s) q in
      \<lparr>data = d,
       trace = trace s @ [GPIO_output Co2_valve (gpio_level (valve_decision z)), Csv_writerow q]
         @ (if plot_interval \<le> length d then [Plot_trends d] else [])\<rparr>)"

definition drawable :: "quadruple \<Rightarrow> bool" where
  "drawable q = (\<not> too_large (snd (snd (snd q))))"

definition parsed :: "runtime \<Rightarrow> byte list \<times> datetime \<Rightarrow> bool" where
  "parsed rt inp =
     (case extract_values rt (snd inp) (fst inp) of
        Inl e \<Rightarrow> False
      | Inr q \<Rightarrow> None_not_in q)"

definition readable :: "runtime \<Rightarrow> byte list \<times> datetime \<Rightarrow> bool" where
  "readable rt inp =
     (case extract_values rt (snd inp) (fst inp) of
        Inl e \<Rightarrow> False
      | Inr q \<Rightarrow> None_not_in q \<and> drawable q)"

fun is_plot :: "effect \<Rightarrow> bool" where
  "is_plot (Plot_trends w) = True"
| "is_plot e = False"

fun valve_levels :: "effect list \<Rightarrow> bool list" where
  "valve_levels [] = []"
| "valve_levels (GPIO_output pin level # es) = level # valve_levels es"
| "valve_levels (e # es) = valve_levels es"

section \<open>The matcher\<close>

subsection \<open>The backtracking matcher, one character at a time\<close>

text \<open>
  The matcher as a recursion over the text: a greedy item takes the next character when
  it can and falls back to the rest of the pattern when what follows fails.
\<close>

lemma first_some_append:
  "first_some f (xs @ ys) = (case first_some f xs of Some y \<Rightarrow> Some y | None \<Rightarrow> first_some f ys)"
  by (induction xs) (auto split: option.splits)

lemma first_some_map: "first_some f (map g xs) = first_some (\<lambda>x. f (g x)) xs"
  by (induction xs) (auto split: option.splits)

lemma first_some_single: "first_some f [x] = f x"
  by (simp split: option.splits)

lemma rev_upt_0: "rev [0 ..< Suc (Suc k)] = map Suc (rev [0 ..< Suc k]) @ [0]"
proof -
  have "[0 ..< Suc (Suc k)] = 0 # map Suc [0 ..< Suc k]"
    by (simp only: upt_conv_Cons [of 0 "Suc (Suc k)"] map_Suc_upt zero_less_Suc)
  then show ?thesis by (simp only: rev.simps rev_map)
qed

lemma rev_upt_1: "rev [1 ..< Suc (Suc k)] = map Suc (rev [1 ..< Suc k]) @ [1]"
proof -
  have "[1 ..< Suc (Suc k)] = 1 # map Suc [1 ..< Suc k]"
    by (simp add: upt_conv_Cons map_Suc_upt del: upt_Suc)
  then show ?thesis by (simp only: rev.simps rev_map)
qed

lemma match_here_Spaces_Nil: "match_here rt (Spaces # its) [] = match_here rt its []"
  by (simp split: option.splits)

lemma match_here_Spaces_Cons:
  "match_here rt (Spaces # its) (x # xs) =
     (if is_space x
      then (case match_here rt (Spaces # its) xs of
              Some g \<Rightarrow> Some g
            | None \<Rightarrow> match_here rt its (x # xs))
      else match_here rt its (x # xs))"
proof (cases "is_space x")
  case False
  then show ?thesis by (simp split: option.splits)
next
  case True
  define k where "k = length (takeWhile is_space xs)"
  define F where "F = (\<lambda>n. match_here rt its (drop n (x # xs)))"
  have tail: "match_here rt (Spaces # its) xs = first_some (\<lambda>n. F (Suc n)) (rev [0 ..< Suc k])"
    by (simp only: match_here.simps F_def k_def drop_Suc_Cons)
  from True have "match_here rt (Spaces # its) (x # xs) = first_some F (rev [0 ..< Suc (Suc k)])"
    by (simp only: match_here.simps F_def k_def takeWhile.simps if_True length_Cons)
  also have "\<dots> = (case first_some (\<lambda>n. F (Suc n)) (rev [0 ..< Suc k]) of
                     Some y \<Rightarrow> Some y | None \<Rightarrow> F 0)"
    by (simp only: rev_upt_0 first_some_append first_some_map first_some_single)
  also have "\<dots> = (case match_here rt (Spaces # its) xs of
                     Some g \<Rightarrow> Some g | None \<Rightarrow> match_here rt its (x # xs))"
    by (simp only: tail F_def drop_0)
  finally show ?thesis using True by simp
qed

lemma match_here_Digits_Nil: "match_here rt (Digits # its) [] = None"
  by simp

lemma match_here_Digits_Cons:
  "match_here rt (Digits # its) (x # xs) =
     (if is_digit rt x
      then (case match_here rt (Digits # its) xs of
              Some g \<Rightarrow> Some ((x # hd g) # tl g)
            | None \<Rightarrow> map_option ((#) [x]) (match_here rt its xs))
      else None)"
proof (cases "is_digit rt x")
  case False
  then show ?thesis by simp
next
  case True
  define k where "k = length (takeWhile (is_digit rt) xs)"
  define F where "F = (\<lambda>n. map_option ((#) (take n (x # xs))) (match_here rt its (drop n (x # xs))))"
  define G where "G = (\<lambda>n. map_option ((#) (take n xs)) (match_here rt its (drop n xs)))"
  have shift: "first_some (\<lambda>n. F (Suc n)) ns =
      (case first_some G ns of Some g \<Rightarrow> Some ((x # hd g) # tl g) | None \<Rightarrow> None)" for ns
    by (induction ns) (auto simp: F_def G_def split: option.splits)
  have tail: "match_here rt (Digits # its) xs = first_some G (rev [1 ..< Suc k])"
    by (simp only: match_here.simps G_def k_def)
  have one: "F 1 = map_option ((#) [x]) (match_here rt its xs)"
    by (simp add: F_def)
  from True have "match_here rt (Digits # its) (x # xs) = first_some F (rev [1 ..< Suc (Suc k)])"
    by (simp only: match_here.simps F_def k_def takeWhile.simps if_True length_Cons)
  also have "\<dots> = (case first_some (\<lambda>n. F (Suc n)) (rev [1 ..< Suc k]) of
                     Some y \<Rightarrow> Some y | None \<Rightarrow> F 1)"
    by (simp only: rev_upt_1 first_some_append first_some_map first_some_single)
  also have "\<dots> = (case match_here rt (Digits # its) xs of
              Some g \<Rightarrow> Some ((x # hd g) # tl g)
            | None \<Rightarrow> map_option ((#) [x]) (match_here rt its xs))"
    by (simp only: shift tail one) (simp split: option.splits)
  finally show ?thesis using True by simp
qed

lemma search_Nil: "search rt p [] = match_here rt p []"
  by (simp add: search_def split: option.splits)

lemma search_Cons:
  "search rt p (x # xs) =
     (case match_here rt p (x # xs) of Some g \<Rightarrow> Some g | None \<Rightarrow> search rt p xs)"
proof -
  have "[0 ..< Suc (length (x # xs))] = 0 # map Suc [0 ..< Suc (length xs)]"
    by (simp only: length_Cons upt_conv_Cons [of 0 "Suc (Suc (length xs))"] map_Suc_upt zero_less_Suc)
  then show ?thesis
    by (simp only: search_def first_some.simps first_some_map drop_Suc_Cons drop_0)
qed

subsection \<open>Runs of spaces and digits\<close>

lemma space_not_digit: "is_space c \<Longrightarrow> \<not> is_digit rt c"
  by (auto simp: is_digit_def decimal_value_def is_space_def)

lemma digit_not_space: "is_digit rt c \<Longrightarrow> \<not> is_space c"
  using space_not_digit by blast

lemma digits_start_no_space:
  "list_all (is_digit rt) ds \<Longrightarrow> ds \<noteq> [] \<Longrightarrow> \<not> starts_with is_space (ds @ rest)"
  by (cases ds) (auto dest: digit_not_space)

lemma spaces_start_no_digit:
  "list_all is_space ws \<Longrightarrow> ws \<noteq> [] \<Longrightarrow> \<not> starts_with (is_digit rt) (ws @ rest)"
  by (cases ws) (auto dest: space_not_digit)

lemma markers_plain:
  "\<not> is_space 84" "\<not> is_space 90" "\<not> is_digit rt 84" "\<not> is_digit rt 90"
  by (simp_all add: is_space_def is_digit_def decimal_value_def)

lemma match_here_Spaces_run:
  assumes "list_all is_space ws" and "\<not> starts_with is_space rest"
    and "match_here rt its rest = Some g"
  shows "match_here rt (Spaces # its) (ws @ rest) = Some g"
  using assms(1)
proof (induction ws)
  case Nil
  from assms(2,3) show ?case
    by (cases rest) (simp_all add: match_here_Spaces_Nil match_here_Spaces_Cons del: match_here.simps)
next
  case (Cons w ws)
  then show ?case
    by (simp add: match_here_Spaces_Cons del: match_here.simps)
qed

lemma match_here_Digits_stop:
  "\<not> starts_with (is_digit rt) rest \<Longrightarrow> match_here rt (Digits # its) rest = None"
  by (cases rest) (simp_all add: match_here_Digits_Nil match_here_Digits_Cons del: match_here.simps)

lemma match_here_Digits_run:
  assumes "list_all (is_digit rt) ds" and "ds \<noteq> []" and "\<not> starts_with (is_digit rt) rest"
    and "match_here rt its rest = Some g"
  shows "match_here rt (Digits # its) (ds @ rest) = Some (ds # g)"
  using assms(1,2)
proof (induction ds)
  case Nil
  then show ?case by simp
next
  case (Cons d ds)
  show ?case
  proof (cases "ds = []")
    case True
    with Cons.prems assms(3,4) show ?thesis
      by (simp add: match_here_Digits_Cons match_here_Digits_stop del: match_here.simps)
  next
    case False
    with Cons have "match_here rt (Digits # its) (ds @ rest) = Some (ds # g)"
      by simp
    with Cons.prems show ?thesis
      by (simp add: match_here_Digits_Cons del: match_here.simps)
  qed
qed

text \<open>The pattern on a line that starts with the three groups in order.\<close>

lemma match_here_pattern_groups:
  assumes ws: "list_all is_space ws1" "list_all is_space ws2" "list_all is_space ws3"
      "list_all is_space ws4" "list_all is_space ws5"
    and ds: "list_all (is_digit rt) d1" "d1 \<noteq> []" "list_all (is_digit rt) d2" "d2 \<noteq> []"
      "list_all (is_digit rt) d3" "d3 \<noteq> []"
    and post: "\<not> starts_with (is_digit rt) post"
  shows "match_here rt pattern
           (72 # ws1 @ d1 @ ws2 @ 84 # ws3 @ d2 @ ws4 @ 90 # ws5 @ d3 @ post)
         = Some [d1, d2, d3]"
proof -
  let ?p3 = "[Digits]"
  let ?p2 = "[Digits, Spaces, Lit 90, Spaces, Digits]"
  let ?r3 = "ws5 @ d3 @ post"
  let ?r2 = "ws3 @ d2 @ ws4 @ 90 # ?r3"
  have a1: "match_here rt ?p3 (d3 @ post) = Some [d3]"
    using ds(5,6) post by (intro match_here_Digits_run) simp_all
  have b1: "\<not> starts_with is_space (d3 @ post)"
    using ds(5,6) by (rule digits_start_no_space)
  have a2: "match_here rt (Spaces # ?p3) ?r3 = Some [d3]"
    using ws(5) b1 a1 by (rule match_here_Spaces_run)
  have a3: "match_here rt (Lit 90 # Spaces # ?p3) (90 # ?r3) = Some [d3]"
    using a2 by (simp del: match_here.simps(3,4))
  have a4: "match_here rt (Spaces # Lit 90 # Spaces # ?p3) (ws4 @ 90 # ?r3) = Some [d3]"
    using ws(4) _ a3 by (rule match_here_Spaces_run) (simp add: markers_plain)
  have b2: "\<not> starts_with (is_digit rt) (ws4 @ 90 # ?r3)"
    using ws(4) by (cases "ws4 = []") (simp_all add: markers_plain spaces_start_no_digit)
  have a5: "match_here rt ?p2 (d2 @ ws4 @ 90 # ?r3) = Some [d2, d3]"
    using ds(3,4) b2 a4 by (rule match_here_Digits_run)
  have b3: "\<not> starts_with is_space (d2 @ ws4 @ 90 # ?r3)"
    using ds(3,4) by (rule digits_start_no_space)
  have a6: "match_here rt (Spaces # ?p2) ?r2 = Some [d2, d3]"
    using ws(3) b3 a5 by (rule match_here_Spaces_run)
  have a7: "match_here rt (Lit 84 # Spaces # ?p2) (84 # ?r2) = Some [d2, d3]"
    using a6 by (simp del: match_here.simps(3,4))
  have a8: "match_here rt (Spaces # Lit 84 # Spaces # ?p2) (ws2 @ 84 # ?r2) = Some [d2, d3]"
    using ws(2) _ a7 by (rule match_here_Spaces_run) (simp add: markers_plain)
  have b4: "\<not> starts_with (is_digit rt) (ws2 @ 84 # ?r2)"
    using ws(2) by (cases "ws2 = []") (simp_all add: markers_plain spaces_start_no_digit)
  have a9: "match_here rt (Digits # Spaces # Lit 84 # Spaces # ?p2) (d1 @ ws2 @ 84 # ?r2)
      = Some [d1, d2, d3]"
    using ds(1,2) b4 a8 by (rule match_here_Digits_run)
  have b5: "\<not> starts_with is_space (d1 @ ws2 @ 84 # ?r2)"
    using ds(1,2) by (rule digits_start_no_space)
  have a10: "match_here rt (Spaces # Digits # Spaces # Lit 84 # Spaces # ?p2)
      (ws1 @ d1 @ ws2 @ 84 # ?r2) = Some [d1, d2, d3]"
    using ws(1) b5 a9 by (rule match_here_Spaces_run)
  then show ?thesis
    by (simp add: pattern_def del: match_here.simps(3,4))
qed

lemma match_here_pattern_not_H: "x \<noteq> 72 \<Longrightarrow> match_here rt pattern (x # xs) = None"
  by (simp add: pattern_def del: match_here.simps(3,4))

lemma match_here_pattern_Nil: "match_here rt pattern [] = None"
  by (simp add: pattern_def del: match_here.simps(3,4))

lemma search_no_H: "72 \<notin> set s \<Longrightarrow> search rt pattern s = None"
  by (induction s) (simp_all add: search_Nil search_Cons match_here_pattern_Nil match_here_pattern_not_H)

lemma search_skip_prefix: "72 \<notin> set pre \<Longrightarrow> search rt pattern (pre @ s) = search rt pattern s"
  by (induction pre) (simp_all add: search_Cons match_here_pattern_not_H)

lemma search_first: "match_here rt p (x # xs) = Some g \<Longrightarrow> search rt p (x # xs) = Some g"
  by (simp add: search_Cons)

lemma search_later: "search rt p s \<noteq> None \<Longrightarrow> search rt p (pre @ s) \<noteq> None"
  by (induction pre) (auto simp: search_Cons split: option.splits)

text \<open>
  A line that holds the three groups after any prefix is matched; with no \<open>H\<close> in
  the prefix and no digit after the last group, the match is the one of these groups.
\<close>

lemma search_line_exact:
  assumes "list_all is_space ws1" "list_all is_space ws2" "list_all is_space ws3"
      "list_all is_space ws4" "list_all is_space ws5"
    and "list_all (is_digit rt) d1" "d1 \<noteq> []" "list_all (is_digit rt) d2" "d2 \<noteq> []"
      "list_all (is_digit rt) d3" "d3 \<noteq> []"
    and "\<not> starts_with (is_digit rt) post" and "72 \<notin> set pre"
  shows "search rt pattern
           (pre @ 72 # ws1 @ d1 @ ws2 @ 84 # ws3 @ d2 @ ws4 @ 90 # ws5 @ d3 @ post)
         = Some [d1, d2, d3]"
proof -
  have "match_here rt pattern (72 # ws1 @ d1 @ ws2 @ 84 # ws3 @ d2 @ ws4 @ 90 # ws5 @ d3 @ post)
        = Some [d1, d2, d3]"
    using assms(1-12) by (rule match_here_pattern_groups)
  then have "search rt pattern (72 # ws1 @ d1 @ ws2 @ 84 # ws3 @ d2 @ ws4 @ 90 # ws5 @ d3 @ post)
        = Some [d1, d2, d3]"
    by (rule search_first)
  then show ?thesis
    by (simp only: search_skip_prefix [OF assms(13)])
qed

lemma not_starts_with_dropWhile: "\<not> starts_with P (dropWhile P xs)"
  by (induction xs) simp_all

lemma search_line_succeeds:
  assumes "list_all is_space ws1" "list_all is_space ws2" "list_all is_space ws3"
      "list_all is_space ws4" "list_all is_space ws5"
    and "list_all (is_digit rt) d1" "d1 \<noteq> []" "list_all (is_digit rt) d2" "d2 \<noteq> []"
      "list_all (is_digit rt) d3" "d3 \<noteq> []"
  shows "search rt pattern
           (pre @ 72 # ws1 @ d1 @ ws2 @ 84 # ws3 @ d2 @ ws4 @ 90 # ws5 @ d3 @ post) \<noteq> None"
proof -
  let ?more = "takeWhile (is_digit rt) post" and ?rest = "dropWhile (is_digit rt) post"
  have "list_all (is_digit rt) (d3 @ ?more)"
    using assms(10) by (auto simp: list_all_iff dest: set_takeWhileD)
  moreover have "d3 @ ?more \<noteq> []"
    using assms(11) by simp
  moreover have "\<not> starts_with (is_digit rt) ?rest"
    by (rule not_starts_with_dropWhile)
  ultimately have "match_here rt pattern
      (72 # ws1 @ d1 @ ws2 @ 84 # ws3 @ d2 @ ws4 @ 90 # ws5 @ (d3 @ ?more) @ ?rest)
      = Some [d1, d2, d3 @ ?more]"
    using assms(1-9) by (intro match_here_pattern_groups)
  then have "search rt pattern
      (72 # ws1 @ d1 @ ws2 @ 84 # ws3 @ d2 @ ws4 @ 90 # ws5 @ (d3 @ ?more) @ ?rest) \<noteq> None"
    by (simp add: search_Cons)
  then have "search rt pattern
      (72 # ws1 @ d1 @ ws2 @ 84 # ws3 @ d2 @ ws4 @ 90 # ws5 @ d3 @ post) \<noteq> None"
    by simp
  then show ?thesis
    by (rule search_later)
qed

section \<open>Decoding and conversion\<close>

subsection \<open>ASCII bytes decode to themselves\<close>

lemma unat_of_char: "unat (of_char c :: 8 word) = of_char c"
proof -
  have "unat (of_nat (of_char c) :: 8 word) = of_char c"
    by (simp add: unat_of_nat)
  then show ?thesis by (simp only: of_nat_of_char)
qed

lemma utf8_codepoints_ascii: "list_all (\<lambda>b. b < 128) bs \<Longrightarrow> utf8_codepoints bs = Some bs"
  by (induction bs) simp_all

lemma decode_utf8_ascii:
  "list_all (\<lambda>c. of_char c < (128::nat)) cs \<Longrightarrow> decode_utf8 (ascii cs) = Inr (map of_char cs)"
proof -
  assume a: "list_all (\<lambda>c. of_char c < (128::nat)) cs"
  have m: "map unat (ascii cs) = map of_char cs"
    by (simp add: ascii_def unat_of_char)
  from a have "list_all (\<lambda>b. b < 128) (map of_char cs :: nat list)"
    by (simp add: list_all_iff)
  then show ?thesis
    by (simp add: decode_utf8_def m utf8_codepoints_ascii)
qed

lemma decode_utf8_bytes:
  "list_all (\<lambda>b. b < 128) bs \<Longrightarrow> decode_utf8 (map of_nat bs) = Inr bs"
proof -
  assume a: "list_all (\<lambda>b. b < 128) bs"
  then have "map unat (map of_nat bs :: byte list) = bs"
    by (induction bs) (simp_all add: unat_of_nat)
  with a show ?thesis
    by (simp add: decode_utf8_def utf8_codepoints_ascii)
qed

subsection \<open>Decimal numerals\<close>

declare decimal.simps [simp del]

lemma decimal_nonempty: "decimal n \<noteq> []"
  by (subst decimal.simps) simp

lemma decimal_ascii: "list_all (\<lambda>c. 48 \<le> c \<and> c \<le> 57) (decimal n)"
proof (induction n rule: decimal.induct)
  case (1 n)
  then show ?case
    by (subst decimal.simps) (auto simp: list_all_iff)
qed

lemma ascii_digit: "48 \<le> c \<and> c \<le> 57 \<Longrightarrow> is_digit rt c \<and> decimal_value rt c = Some (c - 48)"
  by (simp add: is_digit_def decimal_value_def)

lemma decimal_digits: "list_all (is_digit rt) (decimal n)"
  using decimal_ascii [of n] by (simp add: list_all_iff ascii_digit)

lemma digits_value_snoc:
  "digits_value rt (ds @ [d]) =
     10 * digits_value rt ds + int (case decimal_value rt d of Some v \<Rightarrow> v | None \<Rightarrow> 0)"
  by (simp add: digits_value_def)

lemma digits_value_decimal: "digits_value rt (decimal n) = int n"
proof (induction n rule: decimal.induct)
  case (1 n)
  show ?case
  proof (cases "n < 10")
    case True
    then show ?thesis
      by (subst decimal.simps) (simp add: digits_value_def decimal_value_def)
  next
    case False
    with 1 have "digits_value rt (decimal (n div 10)) = int (n div 10)" by simp
    moreover have "decimal_value rt (48 + n mod 10) = Some (n mod 10)"
      by (simp add: decimal_value_def)
    ultimately show ?thesis using False
      by (subst decimal.simps) (simp add: digits_value_snoc zdiv_int zmod_int)
  qed
qed

lemma length_decimal_le: "n < 10 ^ k \<Longrightarrow> 0 < k \<Longrightarrow> length (decimal n) \<le> k"
proof (induction n arbitrary: k rule: decimal.induct)
  case (1 n)
  show ?case
  proof (cases "n < 10")
    case True
    with 1(3) show ?thesis by (subst decimal.simps) simp
  next
    case False
    from 1(3) obtain j where j: "k = Suc j" by (cases k) auto
    with 1(2) False have "0 < j" by (cases j) auto
    moreover from 1(2) j have "n div 10 < 10 ^ j" by (simp add: less_mult_imp_div_less)
    ultimately have "length (decimal (n div 10)) \<le> j" using 1(1) False by simp
    with False j show ?thesis by (subst decimal.simps) simp
  qed
qed

subsection \<open>A match of the pattern has three groups\<close>

lemma first_some_SomeD: "first_some f xs = Some y \<Longrightarrow> \<exists>x. f x = Some y"
  by (induction xs) (auto split: option.splits)

lemma match_here_groups:
  "match_here rt its s = Some g \<Longrightarrow> length g = length (filter (\<lambda>i. i = Digits) its)"
proof (induction its arbitrary: s g)
  case Nil
  then show ?case by simp
next
  case (Cons it its)
  show ?case
  proof (cases it)
    case (Lit c)
    with Cons show ?thesis
      by (cases s) (auto split: if_splits)
  next
    case Spaces
    with Cons.prems have "first_some (\<lambda>n. match_here rt its (drop n s))
        (rev [0 ..< Suc (length (takeWhile is_space s))]) = Some g"
      by (simp only: match_here.simps)
    then obtain n where "match_here rt its (drop n s) = Some g"
      by (blast dest: first_some_SomeD)
    with Cons.IH Spaces show ?thesis by simp
  next
    case Digits
    with Cons.prems have "first_some
        (\<lambda>n. map_option ((#) (take n s)) (match_here rt its (drop n s)))
        (rev [1 ..< Suc (length (takeWhile (is_digit rt) s))]) = Some g"
      by (simp only: match_here.simps)
    then obtain n where
      "map_option ((#) (take n s)) (match_here rt its (drop n s)) = Some g"
      by (blast dest: first_some_SomeD)
    then obtain g' where "match_here rt its (drop n s) = Some g'" "g = take n s # g'"
      by auto
    with Cons.IH Digits show ?thesis by simp
  qed
qed

lemma search_pattern_three:
  assumes "search rt pattern s = Some g"
  obtains g1 g2 g3 where "g = [g1, g2, g3]"
proof -
  from assms obtain i where "match_here rt pattern (drop i s) = Some g"
    unfolding search_def by (auto dest: first_some_SomeD)
  then have "length g = length (filter (\<lambda>i. i = Digits) pattern)"
    by (rule match_here_groups)
  then have "length g = 3"
    by (simp add: pattern_def)
  then show ?thesis
    by (cases g; cases "tl g"; cases "tl (tl g)") (auto intro: that)
qed

subsection \<open>Scaling and the three outcomes of extract\_values\<close>

lemma scale_values_full:
  "scale_values rt now g1 g2 g3 = Inr q \<Longrightarrow> \<exists>t h c z. q = (Some t, Some h, Some c, Some z)"
  by (auto simp: scale_values_def split: sum.splits)

lemma scale_values_ok:
  assumes "py_int rt g1 = Inr a" "div10 a = Inr h" "py_int rt g2 = Inr b"
    "div10 (b - 1000) = Inr t" "py_int rt g3 = Inr c"
  shows "scale_values rt now g1 g2 g3 = Inr (Some now, Some h, Some t, Some c)"
  using assms by (simp add: scale_values_def)

lemma extract_values_undecodable:
  "decode_utf8 bs = Inl e \<Longrightarrow> extract_values rt now bs = Inl e"
  by (simp add: extract_values_def)

lemma extract_values_no_match:
  "decode_utf8 bs = Inr s \<Longrightarrow> search rt pattern s = None \<Longrightarrow>
   extract_values rt now bs = Inr (None, None, None, None)"
  by (simp add: extract_values_def)

lemma extract_values_match:
  "decode_utf8 bs = Inr s \<Longrightarrow> search rt pattern s = Some [g1, g2, g3] \<Longrightarrow>
   extract_values rt now bs = scale_values rt now g1 g2 g3"
  by (simp add: extract_values_def)

lemma decode_utf8_error: "decode_utf8 bs = Inl e \<Longrightarrow> e = UnicodeDecodeError"
  by (auto simp: decode_utf8_def split: option.splits)

subsection \<open>Lines of the form H<a> T<b> Z<c>\<close>

lemmas match_eval = match_here.simps(1,2) match_here_Spaces_Nil match_here_Spaces_Cons
  match_here_Digits_Nil match_here_Digits_Cons search_Nil search_Cons

lemmas class_eval = is_space_def is_digit_def decimal_value_def

lemma decode_frame:
  "decode_utf8 (frame a b c) = Inr (72 # decimal a @ [32, 84] @ decimal b @ [32, 90] @ decimal c)"
proof -
  have "list_all (\<lambda>b. b < 128) (decimal n)" for n
    using decimal_ascii [of n] by (auto simp: list_all_iff)
  then show ?thesis
    unfolding frame_def by (intro decode_utf8_bytes) simp
qed

lemma search_frame:
  "search rt pattern (72 # decimal a @ [32, 84] @ decimal b @ [32, 90] @ decimal c)
   = Some [decimal a, decimal b, decimal c]"
proof -
  have "match_here rt pattern
      (72 # [] @ decimal a @ [32] @ 84 # [] @ decimal b @ [32] @ 90 # [] @ decimal c @ [])
      = Some [decimal a, decimal b, decimal c]"
    by (rule match_here_pattern_groups)
       (simp_all add: decimal_digits decimal_nonempty is_space_def)
  then show ?thesis
    by (simp add: search_Cons)
qed

lemma extract_values_frame:
  "extract_values rt now (frame a b c) = scale_values rt now (decimal a) (decimal b) (decimal c)"
  by (rule extract_values_match [OF decode_frame search_frame])

lemma float_overflow_bound: "10 * float_overflow + 1000 < 10 ^ 640"
  by (simp add: float_overflow_def)

lemma float_overflow_pos: "100 < float_overflow"
  by (simp add: float_overflow_def)

lemma length_decimal_small:
  assumes "rat_of_nat n < 10 ^ 640"
  shows "length (decimal n) \<le> 640"
proof -
  from assms have "rat_of_nat n < rat_of_nat (10 ^ 640)"
    by (simp only: of_nat_power of_nat_numeral)
  then have "n < 10 ^ 640"
    by (simp only: of_nat_less_iff)
  then show ?thesis
    by (rule length_decimal_le) simp
qed

lemma below_overflow_small:
  assumes "x / 10 < float_overflow"
  shows "x < 10 ^ 640" and "x + 1000 < 10 ^ 640"
proof -
  from assms have "x < 10 * float_overflow"
    by (simp add: pos_divide_less_eq)
  then have *: "x + 1000 < 10 * float_overflow + 1000"
    by (simp only: add_less_cancel_right)
  also note float_overflow_bound
  finally show "x + 1000 < 10 ^ 640" .
  have "x < x + 1000" by simp
  also note \<open>x + 1000 < 10 ^ 640\<close>
  finally show "x < 10 ^ 640" .
qed

lemma py_int_decimal:
  "int_max_str_digits rt = 0 \<or> length (decimal n) \<le> int_max_str_digits rt
     \<or> length (decimal n) \<le> 640 \<Longrightarrow>
   py_int rt (decimal n) = Inr (int n)"
  by (auto simp: py_int_def digits_value_decimal)

lemma div10_nat: "rat_of_nat a / 10 < float_overflow \<Longrightarrow> div10 (int a) = Inr (rat_of_nat a / 10)"
  by (simp add: div10_def)

lemma div10_offset:
  assumes "(rat_of_nat b - 1000) / 10 < float_overflow"
  shows "div10 (int b - 1000) = Inr ((rat_of_nat b - 1000) / 10)"
proof -
  have "(0::rat) \<le> rat_of_nat b" by simp
  then have "- 100 \<le> (rat_of_nat b - 1000) / 10" by simp
  moreover from float_overflow_pos have "- float_overflow < - 100"
    by (simp only: neg_less_iff_less)
  ultimately have "- float_overflow < (rat_of_nat b - 1000) / 10"
    by (rule less_le_trans [rotated])
  with assms have "\<bar>(rat_of_nat b - 1000) / 10\<bar> < float_overflow"
    by (simp only: abs_less_iff minus_less_iff [of _ float_overflow] simp_thms)
  then show ?thesis
    by (simp add: div10_def)
qed

lemma scale_values_decimal:
  assumes a: "rat_of_nat a / 10 < float_overflow"
    and b: "(rat_of_nat b - 1000) / 10 < float_overflow"
    and c: "int_max_str_digits rt = 0 \<or> length (decimal c) \<le> int_max_str_digits rt
        \<or> length (decimal c) \<le> 640"
  shows "scale_values rt now (decimal a) (decimal b) (decimal c)
         = Inr (Some now, Some (rat_of_nat a / 10), Some ((rat_of_nat b - 1000) / 10),
                Some (int c))"
proof (rule scale_values_ok)
  from a have "length (decimal a) \<le> 640"
    by (intro length_decimal_small below_overflow_small(1))
  then show "py_int rt (decimal a) = Inr (int a)"
    by (simp add: py_int_decimal)
  from a show "div10 (int a) = Inr (rat_of_nat a / 10)"
    by (rule div10_nat)
  from b below_overflow_small(2) [of "rat_of_nat b - 1000"]
  have "rat_of_nat b < 10 ^ 640" by (simp only: diff_add_cancel)
  then have "length (decimal b) \<le> 640"
    by (rule length_decimal_small)
  then show "py_int rt (decimal b) = Inr (int b)"
    by (simp add: py_int_decimal)
  from b show "div10 (int b - 1000) = Inr ((rat_of_nat b - 1000) / 10)"
    by (rule div10_offset)
  from c show "py_int rt (decimal c) = Inr (int c)"
    by (rule py_int_decimal)
qed

lemma extract_values_cases:
  assumes "extract_values rt now bs = Inr q"
  shows "q = (None, None, None, None) \<or> (\<exists>t h c z. q = (Some t, Some h, Some c, Some z))"
proof (cases "decode_utf8 bs")
  case (Inl e)
  with assms show ?thesis by (simp add: extract_values_def)
next
  case (Inr s)
  show ?thesis
  proof (cases "search rt pattern s")
    case None
    with Inr assms show ?thesis by (simp add: extract_values_def)
  next
    case (Some g)
    then obtain g1 g2 g3 where "g = [g1, g2, g3]"
      by (rule search_pattern_three)
    with Some Inr assms have "scale_values rt now g1 g2 g3 = Inr q"
      by (simp add: extract_values_def)
    then show ?thesis
      by (auto dest: scale_values_full)
  qed
qed

lemma extract_values_small_frame:
  assumes "a < 10 ^ 300" "b < 10 ^ 300" "c < 10 ^ 300"
  shows "extract_values rt now (frame a b c)
         = Inr (Some now, Some (rat_of_nat a / 10), Some ((rat_of_nat b - 1000) / 10),
                Some (int c))"
proof -
  have big: "(10::rat) ^ 300 \<le> 10 * float_overflow"
    by (simp add: float_overflow_def)
  have small: "rat_of_nat n / 10 < float_overflow" if "n < 10 ^ 300" for n
  proof -
    from that have "rat_of_nat n < rat_of_nat (10 ^ 300)"
      by (simp only: of_nat_less_iff)
    then have "rat_of_nat n < 10 ^ 300"
      by (simp only: of_nat_power of_nat_numeral)
    then have "rat_of_nat n < 10 * float_overflow"
      using big by (rule less_le_trans)
    then show ?thesis
      by (simp add: pos_divide_less_eq)
  qed
  have "(rat_of_nat b - 1000) / 10 \<le> rat_of_nat b / 10"
    by simp
  then have b: "(rat_of_nat b - 1000) / 10 < float_overflow"
    using small [OF assms(2)] by (rule le_less_trans)
  from assms(3) have "length (decimal c) \<le> 300"
    by (rule length_decimal_le) simp
  then have c: "length (decimal c) \<le> 640"
    by simp
  show ?thesis
    by (simp only: extract_values_frame)
       (rule scale_values_decimal [OF small [OF assms(1)] b], simp add: c)
qed

section \<open>The loop\<close>

subsection \<open>The deque\<close>

lemma deque_append_window:
  "length d \<le> k \<Longrightarrow>
   foldl (deque_append k) d xs = drop (length d + length xs - k) (d @ xs)"
proof (induction xs arbitrary: d)
  case Nil
  then show ?case by simp
next
  case (Cons x xs)
  show ?case
  proof (cases "length d < k")
    case True
    then have "deque_append k d x = d @ [x]"
      by (simp add: deque_append_def)
    moreover from True have "length (d @ [x]) \<le> k" by simp
    ultimately show ?thesis
      using Cons.IH [of "d @ [x]"] by simp
  next
    case False
    with Cons.prems have len: "length d = k" by simp
    then have step: "deque_append k d x = tl (d @ [x])"
      by (simp add: deque_append_def)
    have "length (tl (d @ [x])) \<le> k"
      using len by simp
    then have "foldl (deque_append k) (tl (d @ [x])) xs
        = drop (length (tl (d @ [x])) + length xs - k) (tl (d @ [x]) @ xs)"
      by (rule Cons.IH)
    also have "\<dots> = drop (length xs) (tl (d @ [x]) @ xs)"
      using len by simp
    also have "\<dots> = drop (Suc (length xs)) (d @ x # xs)"
      by (cases d) (simp_all add: drop_Suc)
    finally show ?thesis
      using len step by simp
  qed
qed

subsection \<open>One iteration\<close>

lemma unpack_ok: "d \<noteq> [] \<Longrightarrow> \<exists>ser. unpack d = Inr ser"
  by (simp add: unpack_def)

lemma list_ex_too_large:
  "list_ex too_large (map (snd \<circ> snd \<circ> snd) d) \<longleftrightarrow> \<not> list_all drawable d"
  by (induction d) (simp_all add: drawable_def)

lemma plot_trends_ok:
  "d \<noteq> [] \<Longrightarrow> list_all drawable d \<Longrightarrow> \<exists>ser. plot_trends d = Inr ser"
  by (simp add: plot_trends_def unpack_def list_ex_too_large)

lemma plot_trends_too_large:
  "d \<noteq> [] \<Longrightarrow> \<not> list_all drawable d \<Longrightarrow> plot_trends d = Inl OverflowError"
  by (simp add: plot_trends_def unpack_def list_ex_too_large)

lemma drawable_deque_append:
  assumes "list_all drawable d" and "drawable q"
  shows "list_all drawable (deque_append k d q)"
proof -
  from assms have all: "list_all drawable (d @ [q])"
    by simp
  then have "list_all drawable (tl (d @ [q]))"
    by (cases "d @ [q]") simp_all
  with all show ?thesis
    by (simp add: deque_append_def Let_def)
qed

lemma small_drawable: "c < 10 ^ 300 \<Longrightarrow> drawable (t, h, v, Some (int c))"
proof -
  assume "c < 10 ^ 300"
  then have "rat_of_nat c < rat_of_nat (10 ^ 300)"
    by (simp only: of_nat_less_iff)
  then have "rat_of_nat c < 10 ^ 300"
    by (simp only: of_nat_power of_nat_numeral)
  moreover have "(10::rat) ^ 300 \<le> float_overflow"
    by (simp add: float_overflow_def)
  ultimately have "rat_of_nat c < float_overflow"
    by (rule less_le_trans)
  then show ?thesis
    by (simp add: drawable_def too_large_def)
qed

lemma loop_body_raise:
  "extract_values rt now bs = Inl e \<Longrightarrow> loop_body rt s (bs, now) = (Raised e, s)"
  by (simp add: loop_body_def)

lemma loop_body_no_match:
  "extract_values rt now bs = Inr (None, None, None, None) \<Longrightarrow>
   loop_body rt s (bs, now) = (Raised TypeError, s)"
  by (simp add: loop_body_def)

lemma loop_body_reading:
  assumes "extract_values rt now bs = Inr (Some t, Some h, Some c, Some z)"
    and "list_all drawable (data s)" and "drawable (Some t, Some h, Some c, Some z)"
  shows "loop_body rt s (bs, now) = (Continue, after_reading s (Some t, Some h, Some c, Some z) z)"
proof -
  let ?d = "deque_append 60 (data s) (Some t, Some h, Some c, Some z)"
  from assms(2,3) have "list_all drawable ?d"
    by (rule drawable_deque_append)
  moreover have "?d \<noteq> []" if "plot_interval \<le> length ?d"
    using that by (auto simp: plot_interval_def)
  ultimately have "\<exists>ser. plot_trends ?d = Inr ser" if "plot_interval \<le> length ?d"
    using that by (intro plot_trends_ok) simp_all
  with assms(1) show ?thesis
    by (auto simp: loop_body_def after_reading_def emit_def None_not_in_def Let_def)
qed

text \<open>
  When the deque with the new quadruple is long enough to be drawn and holds a CO2 value
  too large for a float, the iteration writes the valve, appends and logs the quadruple,
  calls \<^verbatim>\<open>plot_trends\<close> and ends the loop with its \<^verbatim>\<open>OverflowError\<close>.
\<close>

lemma loop_body_overflow:
  assumes "extract_values rt now bs = Inr (Some t, Some h, Some c, Some z)"
    and "plot_interval \<le> length (deque_append 60 (data s) (Some t, Some h, Some c, Some z))"
    and "\<not> list_all drawable (deque_append 60 (data s) (Some t, Some h, Some c, Some z))"
  shows "loop_body rt s (bs, now)
         = (Raised OverflowError, after_reading s (Some t, Some h, Some c, Some z) z)"
proof -
  let ?d = "deque_append 60 (data s) (Some t, Some h, Some c, Some z)"
  from assms(2) have "?d \<noteq> []"
    by (auto simp: plot_interval_def)
  then have "plot_trends ?d = Inl OverflowError"
    using assms(3) by (rule plot_trends_too_large)
  with assms(1,2) show ?thesis
    by (simp add: loop_body_def after_reading_def emit_def None_not_in_def Let_def)
qed

lemma readable_reading:
  assumes "readable rt inp"
  obtains t h c z where
    "extract_values rt (snd inp) (fst inp) = Inr (Some t, Some h, Some c, Some z)"
    and "drawable (Some t, Some h, Some c, Some z)"
proof -
  from assms obtain q where q: "extract_values rt (snd inp) (fst inp) = Inr q"
      "None_not_in q" "drawable q"
    by (auto simp: readable_def split: sum.splits)
  from extract_values_cases [OF q(1)] q(2) obtain t h c z
    where "q = (Some t, Some h, Some c, Some z)"
    by (auto simp: None_not_in_def)
  with q(1,3) show ?thesis
    by (intro that [of t h c z]) simp_all
qed

lemma loop_body_readable:
  assumes "readable rt inp" and "list_all drawable (data s)"
  obtains q z where "loop_body rt s inp = (Continue, after_reading s q z)" and "drawable q"
proof -
  from assms(1) obtain t h c z where
    "extract_values rt (snd inp) (fst inp) = Inr (Some t, Some h, Some c, Some z)"
    and d: "drawable (Some t, Some h, Some c, Some z)"
    by (rule readable_reading)
  then have "loop_body rt s (fst inp, snd inp)
      = (Continue, after_reading s (Some t, Some h, Some c, Some z) z)"
    using assms(2) by (intro loop_body_reading)
  with d show ?thesis
    by (intro that [of "(Some t, Some h, Some c, Some z)" z]) simp_all
qed

text \<open>
  Every line that is not parsed ends the loop: with the exception of
  \<^verbatim>\<open>extract_values\<close>, or with the \<^verbatim>\<open>TypeError\<close> of the comparison of 420 with
  \<^verbatim>\<open>None\<close>. Nothing is written before the exception.
\<close>

lemma loop_body_unparsed:
  assumes "\<not> parsed rt inp"
  shows "\<exists>e. loop_body rt s inp = (Raised e, s)"
proof (cases "extract_values rt (snd inp) (fst inp)")
  case (Inl e)
  then have "loop_body rt s (fst inp, snd inp) = (Raised e, s)"
    by (rule loop_body_raise)
  then show ?thesis by simp
next
  case (Inr q)
  with assms have "\<not> None_not_in q"
    by (simp add: parsed_def)
  with extract_values_cases [OF Inr] have "q = (None, None, None, None)"
    by (auto simp: None_not_in_def)
  with Inr have "loop_body rt s (fst inp, snd inp) = (Raised TypeError, s)"
    by (intro loop_body_no_match) simp
  then show ?thesis by simp
qed

lemma data_after_reading: "data (after_reading s q z) = deque_append 60 (data s) q"
  by (simp add: after_reading_def Let_def)

lemma drawable_after_reading:
  "list_all drawable (data s) \<Longrightarrow> drawable q \<Longrightarrow> list_all drawable (data (after_reading s q z))"
  by (simp only: data_after_reading drawable_deque_append)

lemma length_deque_append:
  "length d \<le> k \<Longrightarrow> length (deque_append k d x) = min (Suc (length d)) k"
  by (auto simp: deque_append_def Let_def)

lemma plots_after_reading:
  "length (data s) \<le> 60 \<Longrightarrow>
   length (filter is_plot (trace (after_reading s q z)))
   = length (filter is_plot (trace s)) + (if 9 \<le> length (data s) then 1 else 0)"
  by (auto simp: after_reading_def Let_def length_deque_append plot_interval_def)

subsection \<open>Runs over readable lines\<close>

lemma run_loop_readable:
  assumes "list_all (readable rt) inps" and "length (data s) \<le> 60"
    and "list_all drawable (data s)"
  shows "\<exists>s'. run_loop rt s inps = (Continue, s')
     \<and> length (data s') = min (length (data s) + length inps) 60
     \<and> length (filter is_plot (trace s'))
       = length (filter is_plot (trace s))
         + ((length (data s) + length inps - 9) - (length (data s) - 9))"
  using assms
proof (induction inps arbitrary: s)
  case Nil
  then show ?case by simp
next
  case (Cons inp inps)
  from Cons.prems(1) have "readable rt inp" by simp
  then obtain q z where body: "loop_body rt s inp = (Continue, after_reading s q z)"
    and q: "drawable q"
    using Cons.prems(3) by (rule loop_body_readable)
  let ?s1 = "after_reading s q z"
  from Cons.prems(2) have len1: "length (data ?s1) = min (Suc (length (data s))) 60"
    by (simp add: data_after_reading length_deque_append)
  then have "length (data ?s1) \<le> 60" by simp
  moreover from Cons.prems(3) q have "list_all drawable (data ?s1)"
    by (rule drawable_after_reading)
  ultimately obtain s' where
    run: "run_loop rt ?s1 inps = (Continue, s')"
    and len: "length (data s') = min (length (data ?s1) + length inps) 60"
    and plots: "length (filter is_plot (trace s'))
       = length (filter is_plot (trace ?s1))
         + ((length (data ?s1) + length inps - 9) - (length (data ?s1) - 9))"
    using Cons.prems(1) Cons.IH [of ?s1] by auto
  from body run have "run_loop rt s (inp # inps) = (Continue, s')"
    by simp
  moreover from len len1 have "length (data s') = min (length (data s) + length (inp # inps)) 60"
    by simp
  moreover from plots len1 Cons.prems(2) plots_after_reading [OF Cons.prems(2), of q z]
  have "length (filter is_plot (trace s'))
       = length (filter is_plot (trace s))
         + ((length (data s) + length (inp # inps) - 9) - (length (data s) - 9))"
    by (simp split: if_splits)
  ultimately show ?case by blast
qed

lemma loop_body_plots:
  assumes "loop_body rt s inp = (out, s')" and "Plot_trends w \<in> set (trace s')"
  shows "Plot_trends w \<in> set (trace s) \<or> plot_interval \<le> length w"
  using assms
  by (auto simp: loop_body_def emit_def Let_def split: sum.splits option.splits if_splits)

lemma run_loop_plots:
  assumes "run_loop rt s inps = (out, s')" and "Plot_trends w \<in> set (trace s')"
  shows "Plot_trends w \<in> set (trace s) \<or> plot_interval \<le> length w"
  using assms
proof (induction inps arbitrary: s)
  case Nil
  then show ?case by simp
next
  case (Cons inp inps)
  obtain o1 s1 where body: "loop_body rt s inp = (o1, s1)"
    by (cases "loop_body rt s inp")
  show ?case
  proof (cases o1)
    case Continue
    with body Cons.prems(1) have "run_loop rt s1 inps = (out, s')"
      by simp
    with Cons.IH Cons.prems(2) have "Plot_trends w \<in> set (trace s1) \<or> plot_interval \<le> length w"
      by blast
    with body show ?thesis
      by (auto dest: loop_body_plots)
  next
    case (Raised e)
    with body Cons.prems(1) have "s' = s1" by simp
    with body Cons.prems(2) show ?thesis
      by (auto dest: loop_body_plots)
  qed
qed

subsection \<open>Runs over lines of the form H<a> T<b> Z<c>\<close>

lemma valve_levels_append: "valve_levels (es @ es') = valve_levels es @ valve_levels es'"
  by (induction es rule: valve_levels.induct) simp_all

lemma valve_levels_after_reading:
  "valve_levels (trace (after_reading s q z))
   = valve_levels (trace s) @ [gpio_level (valve_decision z)]"
  by (simp add: after_reading_def Let_def valve_levels_append)

lemma loop_body_small_frame:
  assumes "a < 10 ^ 300" "b < 10 ^ 300" "c < 10 ^ 300" and "list_all drawable (data s)"
  shows "loop_body rt s (frame a b c, now)
         = (Continue, after_reading s
             (Some now, Some (rat_of_nat a / 10), Some ((rat_of_nat b - 1000) / 10),
              Some (int c)) (int c))"
  using extract_values_small_frame [OF assms(1-3)] assms(4) small_drawable [OF assms(3)]
  by (rule loop_body_reading)

text \<open>
  A run over such lines with small numbers, from a state whose deque can be drawn: the
  loop goes on, its deque can still be drawn, and the levels written and the deque are
  those of the lines.
\<close>

lemma run_loop_small_frames:
  assumes "a < 10 ^ 300" "b < 10 ^ 300" "list_all (\<lambda>c. c < 10 ^ 300) cs"
    and "list_all drawable (data s)"
  shows "valve_levels (trace (snd (run_loop rt s (map (\<lambda>c. (frame a b c, now)) cs))))
         = valve_levels (trace s) @ map (\<lambda>c. gpio_level (valve_decision (int c))) cs
       \<and> data (snd (run_loop rt s (map (\<lambda>c. (frame a b c, now)) cs)))
         = foldl (deque_append 60) (data s)
             (map (\<lambda>c. (Some now, Some (rat_of_nat a / 10), Some ((rat_of_nat b - 1000) / 10),
                          Some (int c))) cs)"
  using assms(3,4)
proof (induction cs arbitrary: s)
  case Nil
  then show ?case by simp
next
  case (Cons c cs)
  let ?q = "(Some now, Some (rat_of_nat a / 10), Some ((rat_of_nat b - 1000) / 10), Some (int c))"
  from Cons.prems(1) have c: "c < 10 ^ 300" and cs: "list_all (\<lambda>c. c < 10 ^ 300) cs"
    by simp_all
  have body: "loop_body rt s (frame a b c, now) = (Continue, after_reading s ?q (int c))"
    using assms(1,2) c Cons.prems(2) by (rule loop_body_small_frame)
  from Cons.prems(2) small_drawable [OF c]
  have "list_all drawable (data (after_reading s ?q (int c)))"
    by (rule drawable_after_reading)
  with cs Cons.IH [of "after_reading s ?q (int c)"] body show ?case
    by (simp add: valve_levels_after_reading data_after_reading)
qed

lemma run_loop_valve_levels:
  assumes "a < 10 ^ 300" "b < 10 ^ 300" "list_all (\<lambda>c. c < 10 ^ 300) cs"
    and "list_all drawable (data s)"
  shows "valve_levels (trace (snd (run_loop rt s (map (\<lambda>c. (frame a b c, now)) cs))))
         = valve_levels (trace s) @ map (\<lambda>c. gpio_level (valve_decision (int c))) cs"
  using run_loop_small_frames [OF assms] by (rule conjunct1)

lemma run_loop_data:
  assumes "a < 10 ^ 300" "b < 10 ^ 300" "list_all (\<lambda>c. c < 10 ^ 300) cs"
    and "list_all drawable (data s)"
  shows "data (snd (run_loop rt s (map (\<lambda>c. (frame a b c, now)) cs)))
         = foldl (deque_append 60) (data s)
             (map (\<lambda>c. (Some now, Some (rat_of_nat a / 10), Some ((rat_of_nat b - 1000) / 10),
                          Some (int c))) cs)"
  using run_loop_small_frames [OF assms] by (rule conjunct2)

lemma sensor_range: "n < 100000 \<Longrightarrow> n < (10::nat) ^ 300"
proof -
  assume "n < 100000"
  then have "n < 10 ^ 5" by simp
  also have "(10::nat) ^ 5 \<le> 10 ^ 300" by (rule power_increasing) simp_all
  finally show ?thesis .
qed

subsection \<open>Readable lines and the calls of plot\_trends\<close>

lemma readable_small_frame:
  assumes "a < 10 ^ 300" "b < 10 ^ 300" "c < 10 ^ 300"
  shows "readable rt (frame a b c, now)"
  by (simp add: readable_def extract_values_small_frame [OF assms] None_not_in_def
      small_drawable [OF assms(3)] del: not_None_eq)

lemma plots_of_readable_run:
  assumes "list_all (readable rt) inps"
  obtains s where "run_loop rt initial inps = (Continue, s)"
    and "length (filter is_plot (trace s)) = length inps - 9"
proof -
  have "length (data initial) \<le> 60" and "list_all drawable (data initial)"
    by (simp_all add: initial_def)
  with assms obtain s where "run_loop rt initial inps = (Continue, s)"
    and "length (filter is_plot (trace s))
       = length (filter is_plot (trace initial))
         + ((length (data initial) + length inps - 9) - (length (data initial) - 9))"
    using run_loop_readable [of rt inps initial] by blast
  then show ?thesis
    by (intro that [of s]) (simp_all add: initial_def)
qed

subsection \<open>Lines whose CO2 value cannot be drawn\<close>

lemma parsed_reading:
  assumes "parsed rt inp"
  obtains t h c z where
    "extract_values rt (snd inp) (fst inp) = Inr (Some t, Some h, Some c, Some z)"
proof -
  from assms obtain q where q: "extract_values rt (snd inp) (fst inp) = Inr q" "None_not_in q"
    by (auto simp: parsed_def split: sum.splits)
  from extract_values_cases [OF q(1)] q(2) show ?thesis
    by (auto simp: None_not_in_def q(1) intro: that)
qed

lemma loop_body_short:
  assumes "extract_values rt now bs = Inr (Some t, Some h, Some c, Some z)"
    and "length (deque_append 60 (data s) (Some t, Some h, Some c, Some z)) < plot_interval"
  shows "loop_body rt s (bs, now) = (Continue, after_reading s (Some t, Some h, Some c, Some z) z)"
  using assms
  by (simp add: loop_body_def after_reading_def emit_def None_not_in_def Let_def)

lemma run_loop_short:
  assumes "list_all (parsed rt) inps" and "length (data s) + length inps < plot_interval"
  shows "\<exists>s'. run_loop rt s inps = (Continue, s')
           \<and> length (data s') = length (data s) + length inps"
  using assms
proof (induction inps arbitrary: s)
  case Nil
  then show ?case by simp
next
  case (Cons inp inps)
  from Cons.prems(1) have "parsed rt inp" by simp
  then obtain t h c z where
    ex: "extract_values rt (snd inp) (fst inp) = Inr (Some t, Some h, Some c, Some z)"
    by (rule parsed_reading)
  let ?q = "(Some t, Some h, Some c, Some z)"
  from Cons.prems(2) have len: "length (deque_append 60 (data s) ?q) = Suc (length (data s))"
    by (simp add: length_deque_append plot_interval_def)
  with Cons.prems(2) have "length (deque_append 60 (data s) ?q) < plot_interval"
    by simp
  with ex have "loop_body rt s (fst inp, snd inp) = (Continue, after_reading s ?q z)"
    by (rule loop_body_short)
  then have body: "loop_body rt s inp = (Continue, after_reading s ?q z)"
    by simp
  from len have "length (data (after_reading s ?q z)) = Suc (length (data s))"
    by (simp add: data_after_reading)
  with Cons.prems Cons.IH [of "after_reading s ?q z"] body show ?case
    by auto
qed

lemma not_drawable_deque_append:
  "\<not> drawable q \<Longrightarrow> length d < k \<Longrightarrow> \<not> list_all drawable (deque_append k d q)"
  by (simp add: deque_append_def Let_def)

lemma extract_values_large_z:
  assumes "c < 10 ^ 640"
  shows "extract_values rt now (frame 486 1221 c)
   = Inr (Some now, Some (rat_of_nat 486 / 10), Some ((rat_of_nat 1221 - 1000) / 10),
          Some (int c))"
proof -
  from assms have "length (decimal c) \<le> 640"
    by (rule length_decimal_le) simp
  then show ?thesis
    by (simp only: extract_values_frame)
       (rule scale_values_decimal, simp_all add: float_overflow_def)
qed

text \<open>
  Ten lines whose CO2 value is too large for a float: nine are appended and logged, the
  tenth makes the deque long enough to be drawn, and the drawing ends the loop.
\<close>

lemma loop_ends_when_drawing_overflows:
  assumes "c < 10 ^ 640" and "float_overflow \<le> rat_of_nat c"
  shows "\<exists>s. run_loop rt initial (replicate 10 (frame 486 1221 c, now))
        = (Raised OverflowError, s)"
proof -
  let ?inp = "(frame 486 1221 c, now)"
  let ?q = "(Some now, Some (rat_of_nat 486 / 10), Some ((rat_of_nat 1221 - 1000) / 10),
             Some (int c))"
  note ex = extract_values_large_z [OF assms(1), of rt now]
  have "parsed rt ?inp"
    by (simp add: parsed_def ex None_not_in_def del: not_None_eq)
  then have "list_all (parsed rt) (replicate 9 ?inp)"
    by (simp add: list_all_iff)
  then obtain s where run: "run_loop rt initial (replicate 9 ?inp) = (Continue, s)"
    and len: "length (data s) = 9"
    using run_loop_short [of rt "replicate 9 ?inp" initial]
    by (auto simp: initial_def plot_interval_def)
  from assms(2) have "\<not> drawable ?q"
    by (simp add: drawable_def too_large_def)
  with len have "\<not> list_all drawable (deque_append 60 (data s) ?q)"
    by (intro not_drawable_deque_append) simp_all
  moreover from len have "plot_interval \<le> length (deque_append 60 (data s) ?q)"
    by (simp add: length_deque_append plot_interval_def)
  ultimately have last: "loop_body rt s ?inp = (Raised OverflowError, after_reading s ?q (int c))"
    using ex by (intro loop_body_overflow)
  have app: "run_loop rt s0 (xs @ [x]) =
      (case run_loop rt s0 xs of
         (Continue, s1) \<Rightarrow> loop_body rt s1 x
       | (Raised e, s1) \<Rightarrow> (Raised e, s1))" for s0 xs x
    by (induction xs arbitrary: s0) (auto split: prod.splits outcome.splits)
  have "replicate (Suc 9) ?inp = replicate 9 ?inp @ [?inp]"
    by (simp only: replicate_append_same replicate_Suc)
  then have "replicate 10 ?inp = replicate 9 ?inp @ [?inp]"
    by simp
  with run last app [of initial "replicate 9 ?inp" ?inp] show ?thesis
    by simp
qed

section \<open>The claims\<close>

subsection \<open>The loop on a line that cannot be parsed\<close>

text \<open>
  C1 fails on the code. A line the pattern does not match makes \<^verbatim>\<open>extract_values\<close>
  return four times \<^verbatim>\<open>None\<close>, and the comparison \<^verbatim>\<open>420 < z_value < 510\<close>, which
  comes before the test for \<^verbatim>\<open>None\<close>, raises \<^verbatim>\<open>TypeError\<close>: the loop ends, and
  a valid line that follows is never read. The same happens on the empty read of a
  timeout, and an undecodable line ends the loop with \<^verbatim>\<open>UnicodeDecodeError\<close>.
\<close>

theorem loop_ends_on_unmatched_line:
  "run_loop rt initial [(ascii ''garbage'', t1), (frame 486 1221 496, t2)]
     = (Raised TypeError, initial)
   \<and> loop_body rt s ([], t1) = (Raised TypeError, s)
   \<and> loop_body rt s ([255], t1) = (Raised UnicodeDecodeError, s)"
proof -
  have "decode_utf8 (ascii ''garbage'') = Inr (map of_char ''garbage'')"
    by (rule decode_utf8_ascii) simp
  moreover have "search rt pattern (map of_char ''garbage'') = None"
    by (rule search_no_H) simp
  ultimately have "extract_values rt t1 (ascii ''garbage'') = Inr (None, None, None, None)"
    by (rule extract_values_no_match)
  then have garbage: "loop_body rt initial (ascii ''garbage'', t1) = (Raised TypeError, initial)"
    by (rule loop_body_no_match)
  have "decode_utf8 [] = Inr []"
    by (simp add: decode_utf8_def)
  moreover have "search rt pattern [] = None"
    by (rule search_no_H) simp
  ultimately have "extract_values rt t1 [] = Inr (None, None, None, None)"
    by (rule extract_values_no_match)
  then have empty: "loop_body rt s ([], t1) = (Raised TypeError, s)"
    by (rule loop_body_no_match)
  have "extract_values rt t1 [255] = Inl UnicodeDecodeError"
    by (simp add: extract_values_def decode_utf8_def)
  then have "loop_body rt s ([255], t1) = (Raised UnicodeDecodeError, s)"
    by (rule loop_body_raise)
  with garbage empty show ?thesis by simp
qed

subsection \<open>The valve decision\<close>

text \<open>
  C2. For every integer CO2 value the valve decision is Off exactly when
  \<open>420 < z < 510\<close> and On otherwise; 420 and 510 themselves give On; the values 419,
  420, 465, 509, 510, 600 give On, On, Off, Off, On, On, and the loop fed with lines
  carrying these values writes the levels True, True, False, False, True, True to the
  valve's pin.
\<close>

theorem valve_decision_band:
  "(valve_decision z = Off \<longleftrightarrow> 420 < z \<and> z < 510)
   \<and> (valve_decision z = On \<longleftrightarrow> z \<le> 420 \<or> 510 \<le> z)
   \<and> valve_decision 420 = On \<and> valve_decision 510 = On
   \<and> map valve_decision [419, 420, 465, 509, 510, 600] = [On, On, Off, Off, On, On]
   \<and> valve_levels (trace (snd (run_loop rt initial
         (map (\<lambda>c. (frame 450 1215 c, now)) [419, 420, 465, 509, 510, 600]))))
       = [True, True, False, False, True, True]"
proof -
  have "valve_levels (trace (snd (run_loop rt initial
         (map (\<lambda>c. (frame 450 1215 c, now)) [419, 420, 465, 509, 510, 600]))))
       = valve_levels (trace initial)
         @ map (\<lambda>c. gpio_level (valve_decision (int c))) [419, 420, 465, 509, 510, 600]"
    by (rule run_loop_valve_levels) (simp_all add: sensor_range initial_def)
  then show ?thesis
    by (auto simp: valve_decision_def initial_def)
qed

subsection \<open>What extract\_values does on bad input\<close>

text \<open>
  C3, as the code has it. On a byte sequence that is not valid UTF-8,
  \<^verbatim>\<open>extract_values\<close> raises \<^verbatim>\<open>UnicodeDecodeError\<close> (nothing catches it and no
  error value stands for it); on a byte sequence that decodes to a text the pattern does
  not match, it returns the quadruple of four \<^verbatim>\<open>None\<close> without raising.
\<close>

theorem extract_values_failures:
  "(decode_utf8 bs = Inl e \<longrightarrow> extract_values rt now bs = Inl UnicodeDecodeError)
   \<and> (decode_utf8 bs' = Inr s \<and> search rt pattern s = None \<longrightarrow>
        extract_values rt now' bs' = Inr (None, None, None, None))"
  by (auto simp: extract_values_undecodable extract_values_no_match dest: decode_utf8_error)

theorem extract_values_failures_witness:
  "extract_values sample_runtime 0 [255] = Inl UnicodeDecodeError
   \<and> extract_values sample_runtime 0 (ascii ''garbage'') = Inr (None, None, None, None)"
proof -
  have d1: "decode_utf8 [255] = Inl UnicodeDecodeError"
    by (simp add: decode_utf8_def)
  have d2: "decode_utf8 (ascii ''garbage'') = Inr (map of_char ''garbage'')"
    by (rule decode_utf8_ascii) simp
  have s2: "search sample_runtime pattern (map of_char ''garbage'') = None"
    by (rule search_no_H) simp
  from extract_values_failures
    [of "[255]" UnicodeDecodeError sample_runtime 0 "ascii ''garbage''" "map of_char ''garbage''" 0]
    d1 d2 s2
  show ?thesis by simp
qed

text \<open>
  C3 as the specification states it fails: the byte \<open>0xFF\<close> is not valid UTF-8, and
  \<^verbatim>\<open>extract_values\<close> raises on it instead of returning an error value.
\<close>

theorem extract_values_raises_on_invalid_utf8:
  "extract_values sample_runtime 0 [255] = Inl UnicodeDecodeError"
  by (simp add: extract_values_def decode_utf8_def)

subsection \<open>Valid lines\<close>

text \<open>
  C4, as the code has it. For the line \<^verbatim>\<open>H<a> T<b> Z<c>\<close> with natural numbers
  \<open>a\<close>, \<open>b\<close>, \<open>c\<close> such that \<open>a / 10\<close> and \<open>(b - 1000) / 10\<close> are below the
  overflow threshold of a double, and \<open>c\<close> has no more digits than the interpreter's
  limit for \<^verbatim>\<open>int(str)\<close> allows, \<^verbatim>\<open>extract_values\<close> returns the timestamp,
  humidity \<open>a / 10\<close>, temperature \<open>(b - 1000) / 10\<close> and CO2 \<open>c\<close> unscaled; the
  temperature is negative when \<open>b < 1000\<close>.
\<close>

theorem extract_values_valid_frame:
  assumes "rat_of_nat a / 10 < float_overflow"
    and "(rat_of_nat b - 1000) / 10 < float_overflow"
    and "int_max_str_digits rt = 0 \<or> length (decimal c) \<le> int_max_str_digits rt
        \<or> length (decimal c) \<le> 640"
  shows "extract_values rt now (frame a b c)
         = Inr (Some now, Some (rat_of_nat a / 10), Some ((rat_of_nat b - 1000) / 10),
                Some (int c))
         \<and> (if b < 1000 then (rat_of_nat b - 1000) / 10 < 0 else 0 \<le> (rat_of_nat b - 1000) / 10)"
proof -
  have "extract_values rt now (frame a b c)
         = Inr (Some now, Some (rat_of_nat a / 10), Some ((rat_of_nat b - 1000) / 10),
                Some (int c))"
    by (simp only: extract_values_frame) (rule scale_values_decimal [OF assms])
  moreover have "(rat_of_nat b - 1000) / 10 < 0" if "b < 1000"
  proof -
    from that have "rat_of_nat b < rat_of_nat 1000"
      by (simp only: of_nat_less_iff)
    then show ?thesis by simp
  qed
  moreover have "0 \<le> (rat_of_nat b - 1000) / 10" if "\<not> b < 1000"
  proof -
    from that have "rat_of_nat 1000 \<le> rat_of_nat b"
      by (simp only: of_nat_le_iff not_less)
    then show ?thesis by simp
  qed
  ultimately show ?thesis by simp
qed

theorem extract_values_valid_frame_witness:
  "extract_values sample_runtime 7 (frame 486 995 496)
   = Inr (Some 7, Some (243 / 5), Some (- (1 / 2)), Some 496)"
proof -
  have "length (decimal 496) \<le> 640"
    by (rule length_decimal_le) simp_all
  with extract_values_valid_frame [of 486 995 sample_runtime 496 7]
  show ?thesis
    by (simp add: float_overflow_def)
qed

text \<open>
  C4 as the specification states it fails for large numbers: with \<open>a = 10 ^ 310\<close> the
  division \<^verbatim>\<open>int(match.group(1)) / 10\<close> raises \<^verbatim>\<open>OverflowError\<close>.
\<close>

theorem extract_values_overflows:
  "extract_values sample_runtime 0 (frame (10 ^ 310) 1215 465) = Inl OverflowError"
proof -
  have "length (decimal (10 ^ 310)) \<le> 640"
    by (rule length_decimal_le) simp_all
  then have "py_int sample_runtime (decimal (10 ^ 310)) = Inr (int (10 ^ 310))"
    by (simp add: py_int_decimal)
  moreover have "div10 (int (10 ^ 310)) = Inl OverflowError"
    by (simp add: div10_def float_overflow_def)
  ultimately show ?thesis
    by (simp add: extract_values_frame scale_values_def)
qed

subsection \<open>The deque as a sliding window\<close>

text \<open>
  C5. After any sequence of appends to an empty deque of capacity \<open>k\<close>, the deque
  holds the last \<open>min n k\<close> of the \<open>n\<close> appended elements in arrival order, and
  its length is \<open>min n k\<close>; 65 appends to the deque of capacity 60 leave the last 60
  and drop the 5 oldest, and so does the loop on 65 valid lines: with the CO2 values 0 to
  64 in the lines, its deque then holds the quadruples with the values 5 to 64.
\<close>

theorem deque_keeps_latest:
  "foldl (deque_append k) [] xs = drop (length xs - min (length xs) k) xs
   \<and> length (foldl (deque_append k) [] xs) = min (length xs) k
   \<and> foldl (deque_append 60) [] [0 ..< 65] = [5 ..< 65]
   \<and> map (\<lambda>q. snd (snd (snd q)))
        (data (snd (run_loop rt initial (map (\<lambda>c. (frame 486 1221 c, now)) [0 ..< 65]))))
     = map (\<lambda>c. Some (int c)) [5 ..< 65]"
proof -
  have w: "foldl (deque_append k) [] xs = drop (length xs - k) xs" for k and xs :: "'b list"
    using deque_append_window [of "[]" k xs] by simp
  have "length xs - min (length xs) k = length xs - k"
    by simp
  moreover have "foldl (deque_append 60) [] [0 ..< 65] = [5 ..< 65]"
    by (simp only: w length_upt drop_upt) simp
  moreover have "map (\<lambda>q. snd (snd (snd q)))
        (data (snd (run_loop rt initial (map (\<lambda>c. (frame 486 1221 c, now)) [0 ..< 65]))))
     = map (\<lambda>c. Some (int c)) [5 ..< 65]"
  proof -
    have "list_all (\<lambda>c. c < 10 ^ 300) [0 ..< 65]"
      by (auto simp: list_all_iff intro: sensor_range)
    then have "data (snd (run_loop rt initial (map (\<lambda>c. (frame 486 1221 c, now)) [0 ..< 65])))
        = foldl (deque_append 60) (data initial)
            (map (\<lambda>c. (Some now, Some (rat_of_nat 486 / 10), Some ((rat_of_nat 1221 - 1000) / 10),
                          Some (int c))) [0 ..< 65])"
      by (intro run_loop_data) (simp_all add: sensor_range initial_def)
    then show ?thesis
      by (simp only: initial_def state.simps w length_map length_upt drop_map drop_upt map_map o_def
          snd_conv) simp
  qed
  ultimately show ?thesis
    by (simp add: w)
qed

subsection \<open>When the trends are drawn\<close>

text \<open>
  C6 fails on the code. \<^verbatim>\<open>plot_trends\<close> is called whenever the deque holds at least
  \<^verbatim>\<open>plot_interval\<close> quadruples, so from the tenth readable line on it is called on
  every line: after \<open>n\<close> readable lines it has been called \<open>n - 9\<close> times, twice
  after 11 lines and 11 times after 20, where one call per ten lines would give 1 and 2.
\<close>

theorem plot_trends_called_on_every_line_from_the_tenth:
  "length (filter is_plot (trace (snd (run_loop rt initial
     (replicate n (frame 486 1221 496, now)))))) = n - 9
   \<and> length (filter is_plot (trace (snd (run_loop rt initial
     (replicate 11 (frame 486 1221 496, now)))))) = 2
   \<and> length (filter is_plot (trace (snd (run_loop rt initial
     (replicate 20 (frame 486 1221 496, now)))))) = 11"
proof -
  have count: "length (filter is_plot (trace (snd (run_loop rt initial
     (replicate m (frame 486 1221 496, now)))))) = m - 9" for m
  proof -
    have "readable rt (frame 486 1221 496, now)"
      by (rule readable_small_frame) (simp_all add: sensor_range)
    then have "list_all (readable rt) (replicate m (frame 486 1221 496, now))"
      by (simp add: list_all_iff)
    then obtain s where "run_loop rt initial (replicate m (frame 486 1221 496, now)) = (Continue, s)"
      and "length (filter is_plot (trace s)) = length (replicate m (frame 486 1221 496, now)) - 9"
      by (rule plots_of_readable_run)
    then show ?thesis by simp
  qed
  show ?thesis
    by (simp only: count) simp
qed

subsection \<open>What the pattern accepts\<close>

text \<open>
  C7, as the code has it. Let a text hold, after any prefix, an \<open>H\<close>, digits, a
  \<open>T\<close>, digits, a \<open>Z\<close> and digits in this order, where only whitespace (possibly
  none) stands between a marker and its digits and between a group and the next marker.
  Then the search succeeds. If moreover the prefix has no \<open>H\<close> and no digit follows
  the last group, the three captured groups are exactly the three digit strings.
\<close>

theorem search_groups_whitespace_only:
  assumes "list_all is_space ws1" "list_all is_space ws2" "list_all is_space ws3"
      "list_all is_space ws4" "list_all is_space ws5"
    and "list_all (is_digit rt) d1" "d1 \<noteq> []" "list_all (is_digit rt) d2" "d2 \<noteq> []"
      "list_all (is_digit rt) d3" "d3 \<noteq> []"
  shows "search rt pattern
           (pre @ 72 # ws1 @ d1 @ ws2 @ 84 # ws3 @ d2 @ ws4 @ 90 # ws5 @ d3 @ post) \<noteq> None
         \<and> (72 \<notin> set pre \<and> \<not> starts_with (is_digit rt) post \<longrightarrow>
              search rt pattern
                (pre @ 72 # ws1 @ d1 @ ws2 @ 84 # ws3 @ d2 @ ws4 @ 90 # ws5 @ d3 @ post)
              = Some [d1, d2, d3])"
proof -
  have "search rt pattern
      (pre @ 72 # ws1 @ d1 @ ws2 @ 84 # ws3 @ d2 @ ws4 @ 90 # ws5 @ d3 @ post) \<noteq> None"
    using assms by (rule search_line_succeeds)
  moreover have "search rt pattern
      (pre @ 72 # ws1 @ d1 @ ws2 @ 84 # ws3 @ d2 @ ws4 @ 90 # ws5 @ d3 @ post) = Some [d1, d2, d3]"
    if "72 \<notin> set pre" and "\<not> starts_with (is_digit rt) post"
    using assms that(2,1) by (rule search_line_exact)
  ultimately show ?thesis by simp
qed

theorem search_groups_whitespace_only_witness:
  "search sample_runtime pattern (map of_char '' H 00486 T 01221 Z 00496'')
   = Some [map of_char ''00486'', map of_char ''01221'', map of_char ''00496'']"
  using search_groups_whitespace_only
    [of "[32]" "[32]" "[32]" "[32]" "[32]" sample_runtime "map of_char ''00486''"
       "map of_char ''01221''" "map of_char ''00496''" "[32]" "[]"]
  by (simp add: class_eval)

text \<open>
  C7 as the specification states it fails: other characters between the groups stop
  the match. \<^verbatim>\<open>H1 xT2 Z3\<close> has the three groups in order, with a space and an
  \<open>x\<close> between the first two, and is not matched.
\<close>

theorem no_match_with_other_characters:
  "extract_values sample_runtime 0 (ascii ''H1 xT2 Z3'') = Inr (None, None, None, None)"
  by (rule extract_values_no_match [OF decode_utf8_ascii])
     (simp_all add: pattern_def match_eval class_eval del: match_here.simps(3,4))

text \<open>
  C8, as the code has it. When the decoded line has the three groups in the order
  \<open>H\<close>, \<open>T\<close>, \<open>Z\<close>, with whitespace only inside and between them,
  \<^verbatim>\<open>extract_values\<close> never reports a failed match; and with no \<open>H\<close> before the
  groups and no digit right after them, it returns what the scaling of the three captured
  integers gives.
\<close>

theorem extract_values_ordered_groups:
  assumes "decode_utf8 bs
           = Inr (pre @ 72 # ws1 @ d1 @ ws2 @ 84 # ws3 @ d2 @ ws4 @ 90 # ws5 @ d3 @ post)"
    and "list_all is_space ws1" "list_all is_space ws2" "list_all is_space ws3"
      "list_all is_space ws4" "list_all is_space ws5"
    and "list_all (is_digit rt) d1" "d1 \<noteq> []" "list_all (is_digit rt) d2" "d2 \<noteq> []"
      "list_all (is_digit rt) d3" "d3 \<noteq> []"
  shows "extract_values rt now bs \<noteq> Inr (None, None, None, None)
         \<and> (72 \<notin> set pre \<and> \<not> starts_with (is_digit rt) post \<longrightarrow>
              extract_values rt now bs = scale_values rt now d1 d2 d3)"
proof -
  let ?line = "pre @ 72 # ws1 @ d1 @ ws2 @ 84 # ws3 @ d2 @ ws4 @ 90 # ws5 @ d3 @ post"
  have "search rt pattern ?line \<noteq> None"
    using assms(2-) by (rule search_line_succeeds)
  then obtain g where g: "search rt pattern ?line = Some g"
    by auto
  then obtain g1 g2 g3 where "g = [g1, g2, g3]"
    by (rule search_pattern_three)
  with g assms(1) have "extract_values rt now bs = scale_values rt now g1 g2 g3"
    by (intro extract_values_match) simp_all
  then have "extract_values rt now bs \<noteq> Inr (None, None, None, None)"
    by (auto dest: scale_values_full)
  moreover have "extract_values rt now bs = scale_values rt now d1 d2 d3"
    if "72 \<notin> set pre" and "\<not> starts_with (is_digit rt) post"
  proof -
    have "search rt pattern ?line = Some [d1, d2, d3]"
      using assms(2-) that(2,1) by (rule search_line_exact)
    with assms(1) show ?thesis
      by (rule extract_values_match)
  qed
  ultimately show ?thesis by simp
qed

theorem extract_values_ordered_groups_witness:
  "extract_values sample_runtime 3 (ascii '' H 00486 T 01221 Z 00496'')
   = Inr (Some 3, Some (243 / 5), Some (221 / 10), Some 496)"
proof -
  have "decode_utf8 (ascii '' H 00486 T 01221 Z 00496'')
        = Inr (map of_char '' H 00486 T 01221 Z 00496'')"
    by (rule decode_utf8_ascii) simp
  with extract_values_ordered_groups
    [of "ascii '' H 00486 T 01221 Z 00496''" "[32]" "[32]" "map of_char ''00486''" "[32]"
       "[32]" "map of_char ''01221''" "[32]" "[32]" "map of_char ''00496''" "[]"
       sample_runtime 3]
  show ?thesis
    by (simp add: class_eval scale_values_def py_int_def digits_value_def div10_def
        float_overflow_def)
qed

text \<open>
  C8 as the specification states it fails: the order of the groups is fixed.
  \<^verbatim>\<open>Z3 H1 T2\<close> has the three groups with \<open>Z\<close> first and is not matched.
\<close>

theorem no_match_in_other_order:
  "extract_values sample_runtime 0 (ascii ''Z3 H1 T2'') = Inr (None, None, None, None)"
  by (rule extract_values_no_match [OF decode_utf8_ascii])
     (simp_all add: pattern_def match_eval class_eval del: match_here.simps(3,4))

subsection \<open>All or nothing\<close>

text \<open>
  C9. Whatever \<^verbatim>\<open>extract_values\<close> returns is either four values or four times
  \<^verbatim>\<open>None\<close>, never a mixture, and the loop's test \<^verbatim>\<open>None not in (...)\<close> holds of
  it exactly when the line was decoded and the pattern matched.
\<close>

theorem extract_values_all_or_nothing:
  assumes "extract_values rt now bs = Inr q"
  shows "(q = (None, None, None, None) \<or> (\<exists>t h c z. q = (Some t, Some h, Some c, Some z)))
         \<and> (None_not_in q \<longleftrightarrow> (\<exists>s g. decode_utf8 bs = Inr s \<and> search rt pattern s = Some g))"
proof -
  from assms have either: "q = (None, None, None, None) \<or> (\<exists>t h c z. q = (Some t, Some h, Some c, Some z))"
    by (rule extract_values_cases)
  from assms obtain s where s: "decode_utf8 bs = Inr s"
    by (cases "decode_utf8 bs") (simp_all add: extract_values_def)
  have "None_not_in q \<longleftrightarrow> (\<exists>g. search rt pattern s = Some g)"
  proof (cases "search rt pattern s")
    case None
    with s assms have "q = (None, None, None, None)"
      by (simp add: extract_values_def)
    with None show ?thesis
      by (simp add: None_not_in_def)
  next
    case (Some g)
    then obtain g1 g2 g3 where "g = [g1, g2, g3]"
      by (rule search_pattern_three)
    with Some s assms have "scale_values rt now g1 g2 g3 = Inr q"
      by (simp add: extract_values_def)
    with Some show ?thesis
      by (auto dest: scale_values_full simp: None_not_in_def)
  qed
  with s either show ?thesis by simp
qed

theorem extract_values_all_or_nothing_witness:
  "extract_values sample_runtime 1 (frame 486 1221 496)
     = Inr (Some 1, Some (243 / 5), Some (221 / 10), Some 496)
   \<and> None_not_in (Some 1, Some (243 / 5), Some (221 / 10), Some 496)
   \<and> (\<exists>s g. decode_utf8 (frame 486 1221 496) = Inr s \<and> search sample_runtime pattern s = Some g)"
proof -
  have e: "extract_values sample_runtime 1 (frame 486 1221 496)
     = Inr (Some 1, Some (243 / 5), Some (221 / 10), Some 496)"
    using extract_values_small_frame [of 486 1221 496 sample_runtime 1]
    by (simp add: sensor_range)
  have n: "None_not_in (Some 1, Some (243 / 5), Some (221 / 10), Some 496)"
    by (simp add: None_not_in_def del: not_None_eq)
  from extract_values_all_or_nothing [OF e, THEN conjunct2] n
  have "\<exists>s g. decode_utf8 (frame 486 1221 496) = Inr s \<and> search sample_runtime pattern s = Some g"
    by (rule iffD1)
  with e n show ?thesis by (intro conjI)
qed

subsection \<open>The deque given to plot\_trends\<close>

text \<open>
  C10. Every call of \<^verbatim>\<open>plot_trends\<close> the loop makes, in any run from the start, is
  given a deque of at least \<^verbatim>\<open>plot_interval\<close> quadruples; the deque is then not
  empty and the unpacking of \<^verbatim>\<open>zip(*data)\<close>, the first statement of the function,
  does not raise. (The drawing that follows can still raise, see \<open>loop_body_overflow\<close>.)
\<close>

theorem plot_trends_given_enough:
  assumes "run_loop rt initial inps = (out, s)" and "Plot_trends w \<in> set (trace s)"
  shows "plot_interval \<le> length w \<and> 10 \<le> length w \<and> w \<noteq> []
         \<and> (\<exists>ser. unpack w = Inr ser)"
proof -
  from assms have "Plot_trends w \<in> set (trace initial) \<or> plot_interval \<le> length w"
    by (rule run_loop_plots)
  then have len: "plot_interval \<le> length w"
    by (simp add: initial_def)
  then have ten: "10 \<le> length w"
    by (simp add: plot_interval_def)
  then have nonempty: "w \<noteq> []"
    by auto
  then have "\<exists>ser. unpack w = Inr ser"
    by (rule unpack_ok)
  with len ten nonempty show ?thesis
    by (intro conjI)
qed

theorem plot_trends_given_enough_witness:
  "\<exists>out s w. run_loop sample_runtime initial (replicate 10 (frame 486 1221 496, 0)) = (out, s)
     \<and> Plot_trends w \<in> set (trace s)
     \<and> plot_interval \<le> length w \<and> 10 \<le> length w \<and> w \<noteq> []
     \<and> (\<exists>ser. unpack w = Inr ser)"
proof -
  let ?inps = "replicate 10 (frame 486 1221 496, 0 :: nat)"
  have "readable sample_runtime (frame 486 1221 496, 0)"
    by (rule readable_small_frame) (simp_all add: sensor_range)
  then have "list_all (readable sample_runtime) ?inps"
    by (simp add: list_all_iff)
  then obtain s where run: "run_loop sample_runtime initial ?inps = (Continue, s)"
    and "length (filter is_plot (trace s)) = length ?inps - 9"
    by (rule plots_of_readable_run)
  then have "filter is_plot (trace s) \<noteq> []"
    by auto
  then obtain e where "e \<in> set (trace s)" and "is_plot e"
    by (auto simp: filter_empty_conv)
  moreover from \<open>is_plot e\<close> obtain w where "e = Plot_trends w"
    by (cases e) simp_all
  ultimately have w: "Plot_trends w \<in> set (trace s)"
    by simp
  from plot_trends_given_enough [OF run w] run w show ?thesis
    by blast
qed

end
